theory Spec2Isabelle
  imports Complex_Main
begin

section \<open>Float values\<close>

text \<open>
  The program computes on Python / pandas floats. A float is modelled as a finite value
  (a real number: arithmetic on finite values is exact, rounding error and overflow of the
  64-bit format are not modelled), one of the two infinities, or not-a-number. The special
  values follow IEEE 754: a non-zero finite value divided by zero is an infinity, zero
  divided by zero is NaN, every comparison with NaN is false. The sign of a zero is not
  tracked (a zero divisor counts as +0).
\<close>

datatype fl = Fin real | PInf | NInf | NaN

fun fneg :: "fl \<Rightarrow> fl" where
  "fneg (Fin a) = Fin (- a)"
| "fneg PInf = NInf"
| "fneg NInf = PInf"
| "fneg NaN = NaN"

fun fabs :: "fl \<Rightarrow> fl" where
  "fabs (Fin a) = Fin \<bar>a\<bar>"
| "fabs PInf = PInf"
| "fabs NInf = PInf"
| "fabs NaN = NaN"

fun fadd :: "fl \<Rightarrow> fl \<Rightarrow> fl" where
  "fadd (Fin a) (Fin b) = Fin (a + b)"
| "fadd NaN _ = NaN"
| "fadd _ NaN = NaN"
| "fadd PInf NInf = NaN"
| "fadd NInf PInf = NaN"
| "fadd PInf _ = PInf"
| "fadd NInf _ = NInf"
| "fadd _ PInf = PInf"
| "fadd _ NInf = NInf"

definition fsub :: "fl \<Rightarrow> fl \<Rightarrow> fl" where
  "fsub a b = fadd a (fneg b)"

fun fdiv :: "fl \<Rightarrow> fl \<Rightarrow> fl" where
  "fdiv (Fin a) (Fin b) =
     (if b = 0 then (if a = 0 then NaN else if 0 < a then PInf else NInf)
      else Fin (a / b))"
| "fdiv NaN _ = NaN"
| "fdiv _ NaN = NaN"
| "fdiv (Fin a) PInf = Fin 0"
| "fdiv (Fin a) NInf = Fin 0"
| "fdiv PInf (Fin b) = (if 0 \<le> b then PInf else NInf)"
| "fdiv NInf (Fin b) = (if 0 \<le> b then NInf else PInf)"
| "fdiv _ _ = NaN"

text \<open>The comparisons \<open>a < b\<close>, \<open>a > b\<close> and \<open>a == b\<close>; each is false when an operand is NaN.\<close>

fun flt :: "fl \<Rightarrow> fl \<Rightarrow> bool" where
  "flt (Fin a) (Fin b) = (a < b)"
| "flt NaN _ = False"
| "flt _ NaN = False"
| "flt NInf NInf = False"
| "flt NInf _ = True"
| "flt PInf _ = False"
| "flt (Fin a) PInf = True"
| "flt (Fin a) NInf = False"

definition fgt :: "fl \<Rightarrow> fl \<Rightarrow> bool" where
  "fgt a b = flt b a"

definition feq :: "fl \<Rightarrow> fl \<Rightarrow> bool" where
  "feq a b = (a \<noteq> NaN \<and> a = b)"

section \<open>Substring containment\<close>

text \<open>Python's \<open>sub in s\<close> on strings: \<open>sub\<close> occurs in \<open>s\<close> as a contiguous run.\<close>

fun starts_with :: "string \<Rightarrow> string \<Rightarrow> bool" where
  "starts_with [] s = True"
| "starts_with (c # cs) [] = False"
| "starts_with (c # cs) (d # ds) = (c = d \<and> starts_with cs ds)"

fun str_in :: "string \<Rightarrow> string \<Rightarrow> bool" where
  "str_in sub [] = (sub = [])"
| "str_in sub (c # cs) = (starts_with sub (c # cs) \<or> str_in sub cs)"

section \<open>Series operations\<close>

text \<open>
  The operations of the data-frame library that the indicators use, on a series of floats.
  \<open>diff\<close> is the difference to the previous element (NaN at position 0) and \<open>shift\<close>
  moves every element one position later (NaN at position 0). A rolling aggregate with
  window \<open>w\<close> and minimum count \<open>mp\<close> looks, at position \<open>i\<close>, at the elements
  \<open>max 0 (i + 1 - w) .. i\<close>, drops the NaN among them, and yields NaN unless at least
  \<open>mp\<close> (and at least one) remain. Without an explicit minimum count the library takes
  \<open>mp = w\<close>. Infinite values never enter a rolling aggregate in this program.
\<close>

definition diff :: "fl list \<Rightarrow> fl list" where
  "diff xs = (case xs of [] \<Rightarrow> [] | _ # t \<Rightarrow> NaN # map2 fsub t xs)"

definition shift :: "fl list \<Rightarrow> fl list" where
  "shift xs = (case xs of [] \<Rightarrow> [] | _ # _ \<Rightarrow> NaN # butlast xs)"

definition window :: "nat \<Rightarrow> fl list \<Rightarrow> nat \<Rightarrow> fl list" where
  "window w xs i = drop (Suc i - w) (take (Suc i) xs)"

definition not_nan :: "fl list \<Rightarrow> fl list" where
  "not_nan vs = filter (\<lambda>v. v \<noteq> NaN) vs"

definition rolling :: "(fl list \<Rightarrow> fl) \<Rightarrow> nat \<Rightarrow> nat \<Rightarrow> fl list \<Rightarrow> fl list" where
  "rolling agg w mp xs =
     map (\<lambda>i. let vs = not_nan (window w xs i)
              in if mp \<le> length vs \<and> vs \<noteq> [] then agg vs else NaN)
         [0..<length xs]"

definition fsum :: "fl list \<Rightarrow> fl" where
  "fsum vs = foldr fadd vs (Fin 0)"

definition fmean :: "fl list \<Rightarrow> fl" where
  "fmean vs = fdiv (fsum vs) (Fin (real (length vs)))"

definition fmin :: "fl \<Rightarrow> fl \<Rightarrow> fl" where
  "fmin a b = (if flt b a then b else a)"

definition fmax :: "fl \<Rightarrow> fl \<Rightarrow> fl" where
  "fmax a b = (if flt a b then b else a)"

fun fmin_list :: "fl list \<Rightarrow> fl" where
  "fmin_list [] = NaN"
| "fmin_list [v] = v"
| "fmin_list (v # vs) = fmin v (fmin_list vs)"

fun fmax_list :: "fl list \<Rightarrow> fl" where
  "fmax_list [] = NaN"
| "fmax_list [v] = v"
| "fmax_list (v # vs) = fmax v (fmax_list vs)"

text \<open>The row-wise maximum of a frame (\<open>max(axis=1)\<close>): NaN entries of a row are skipped.\<close>

definition row_max :: "fl list \<Rightarrow> fl" where
  "row_max vs = fmax_list (not_nan vs)"

text \<open>
  \<open>round(v, nd)\<close> on a float: the nearest multiple of \<open>10^-nd\<close>, a tie going to the even
  multiple; infinities and NaN are returned as they are.
\<close>

definition rint :: "real \<Rightarrow> int" where
  "rint x =
     (let f = \<lfloor>x\<rfloor>; d = x - of_int f
      in if d < 1 / 2 then f else if 1 / 2 < d then f + 1
         else if even f then f else f + 1)"

definition round_fl :: "fl \<Rightarrow> nat \<Rightarrow> fl" where
  "round_fl v nd = (case v of Fin x \<Rightarrow> Fin (of_int (rint (x * 10 ^ nd)) / 10 ^ nd) | _ \<Rightarrow> v)"

section \<open>Indicator engine\<close>

text \<open>
  An exception of the source is a value. The data-frame library raises \<open>ValueError\<close> for
  a rolling window smaller than its minimum count, and reading the last element of an
  empty series raises \<open>IndexError\<close>.
\<close>

datatype error = ValueError | IndexError

text \<open>Prices reach the indicators as finite floats; \<open>period\<close> is a natural number.\<close>

definition gain_series :: "real list \<Rightarrow> fl list" where
  "gain_series prices =
     map (\<lambda>d. if fgt d (Fin 0) then d else Fin 0) (diff (map Fin prices))"

definition loss_series :: "real list \<Rightarrow> fl list" where
  "loss_series prices =
     map (\<lambda>d. fneg (if flt d (Fin 0) then d else Fin 0)) (diff (map Fin prices))"

definition avg_gain :: "real list \<Rightarrow> nat \<Rightarrow> fl list" where
  "avg_gain prices period = rolling fmean period 1 (gain_series prices)"

definition avg_loss :: "real list \<Rightarrow> nat \<Rightarrow> fl list" where
  "avg_loss prices period = rolling fmean period 1 (loss_series prices)"

definition calculate_rsi :: "real list \<Rightarrow> nat \<Rightarrow> error + fl option" where
  "calculate_rsi prices period =
     (if length prices < period then Inr None
      else if period < 1 then Inl ValueError
      else
        let rs = map2 fdiv (avg_gain prices period) (avg_loss prices period);
            rsi = map (\<lambda>r. fsub (Fin 100) (fdiv (Fin 100) (fadd (Fin 1) r))) rs
        in if rsi = [] then Inr None else Inr (Some (last rsi)))"

text \<open>
  The RSI series of \<open>calculate_stochrsi\<close>: one call of \<open>calculate_rsi\<close> per prefix, the
  first exception ending the comprehension; an absent RSI becomes NaN in the series.
\<close>

fun collect_rsi :: "(error + fl option) list \<Rightarrow> error + fl list" where
  "collect_rsi [] = Inr []"
| "collect_rsi (Inl e # rs) = Inl e"
| "collect_rsi (Inr v # rs) =
     (case collect_rsi rs of
        Inl e \<Rightarrow> Inl e
      | Inr vs \<Rightarrow> Inr ((case v of None \<Rightarrow> NaN | Some x \<Rightarrow> x) # vs))"

definition stochrsi_series :: "fl list \<Rightarrow> nat \<Rightarrow> fl list" where
  "stochrsi_series rsi_series period =
     (let min_rsi = rolling fmin_list period period rsi_series;
          max_rsi = rolling fmax_list period period rsi_series
      in map (\<lambda>(r, mn, mx). fdiv (fsub r mn) (fsub mx mn))
           (zip rsi_series (zip min_rsi max_rsi)))"

definition rsi_prefix_series :: "real list \<Rightarrow> nat \<Rightarrow> error + fl list" where
  "rsi_prefix_series prices period =
     collect_rsi (map (\<lambda>i. calculate_rsi (take (i + 1) prices) period) [0..<length prices])"

definition stochrsi_k_series :: "fl list \<Rightarrow> nat \<Rightarrow> nat \<Rightarrow> fl list" where
  "stochrsi_k_series rsi_series period smoothK =
     rolling fmean smoothK smoothK (stochrsi_series rsi_series period)"

definition stochrsi_d_series :: "fl list \<Rightarrow> nat \<Rightarrow> nat \<Rightarrow> nat \<Rightarrow> fl list" where
  "stochrsi_d_series rsi_series period smoothK smoothD =
     rolling fmean smoothD smoothD (stochrsi_k_series rsi_series period smoothK)"

text \<open>
  The source returns either the pair \<open>(None, None)\<close> or a pair of two floats: the result
  is an optional pair, \<open>None\<close> standing for \<open>(None, None)\<close>.
\<close>

definition calculate_stochrsi ::
  "real list \<Rightarrow> nat \<Rightarrow> nat \<Rightarrow> nat \<Rightarrow> error + (fl \<times> fl) option" where
  "calculate_stochrsi prices period smoothK smoothD =
     (if length prices < period then Inr None
      else
        case rsi_prefix_series prices period of
          Inl e \<Rightarrow> Inl e
        | Inr rsi_series \<Rightarrow>
            let stochrsi_k = stochrsi_k_series rsi_series period smoothK;
                stochrsi_d = stochrsi_d_series rsi_series period smoothK smoothD
            in if stochrsi_k = [] then Inl IndexError
               else Inr (Some (round_fl (last stochrsi_k) 2, round_fl (last stochrsi_d) 2)))"

text \<open>A price bar is the list \<open>[open, high, low, close]\<close> that the fetch step builds.\<close>

record bar =
  bar_open :: real
  bar_high :: real
  bar_low :: real
  bar_close :: real

definition true_range :: "bar list \<Rightarrow> fl list" where
  "true_range prices =
     (let high_prices = map (\<lambda>entry. Fin (bar_high entry)) prices;
          low_prices = map (\<lambda>entry. Fin (bar_low entry)) prices;
          close_prices = map (\<lambda>entry. Fin (bar_close entry)) prices;
          high_low = map2 fsub high_prices low_prices;
          high_close = map fabs (map2 fsub high_prices (shift close_prices));
          low_close = map fabs (map2 fsub low_prices (shift close_prices))
      in map (\<lambda>(a, b, c). row_max [a, b, c]) (zip high_low (zip high_close low_close)))"

definition atr_series :: "bar list \<Rightarrow> nat \<Rightarrow> fl list" where
  "atr_series prices period = rolling fmean period period (true_range prices)"

definition calculate_atr :: "bar list \<Rightarrow> nat \<Rightarrow> fl option" where
  "calculate_atr prices period =
     (if length prices < period then None
      else
        let atr = atr_series prices period
        in if atr = [] then None else Some (round_fl (last atr) 5))"

section \<open>Signal classifier\<close>

text \<open>
  \<open>get_trade_signal\<close> returns a dictionary with the four fixed keys "RSI Signal",
  "StochRSI Signal", "ATR Signal" and "Estimated Time to Hold": a record.
\<close>

record signals =
  RSI_Signal :: string
  StochRSI_Signal :: string
  ATR_Signal :: string
  Estimated_Time_to_Hold :: string

definition get_trade_signal :: "fl \<Rightarrow> fl \<Rightarrow> fl \<Rightarrow> fl \<Rightarrow> signals" where
  "get_trade_signal rsi stochrsi_k stochrsi_d atr =
     (let rsi_signal =
            (if fgt rsi (Fin 70) then ''Overbought - Strong Sell''
             else if flt rsi (Fin 30) then ''Oversold - Strong Buy''
             else ''Neutral'');
          stochrsi_signal =
            (if fgt stochrsi_k (Fin (8 / 10)) then ''Strong Sell''
             else if flt stochrsi_k (Fin (2 / 10)) then ''Strong Buy''
             else if fgt stochrsi_k stochrsi_d then ''Buy''
             else ''Sell'');
          volatility_signal =
            (if feq atr (Fin 0) then ''Sideways (Low volatility)''
             else if fgt atr (Fin (2 / 1000)) then ''High Volatility''
             else ''Stable Market'');
          estimated_hold_time =
            (if str_in ''Buy'' rsi_signal \<or> str_in ''Buy'' stochrsi_signal
               then ''Hold for 1-3 days''
             else if str_in ''Sell'' rsi_signal \<or> str_in ''Sell'' stochrsi_signal
               then ''Exit within hours''
             else ''Wait for a clear signal'')
      in \<lparr>RSI_Signal = rsi_signal, StochRSI_Signal = stochrsi_signal,
          ATR_Signal = volatility_signal, Estimated_Time_to_Hold = estimated_hold_time\<rparr>)"

section \<open>Signal strength\<close>

text \<open>
  The score that \<open>analyze_best_timeframe\<close> computes from a signal dictionary: four
  independent tests, each an \<open>or\<close> over the two labels, each adding its weight once.
\<close>

definition signal_strength_of :: "signals \<Rightarrow> int" where
  "signal_strength_of sg =
     (let s0 = 0;
          s1 = (if str_in ''Strong Buy'' (RSI_Signal sg) \<or> str_in ''Strong Buy'' (StochRSI_Signal sg)
                then s0 + 2 else s0);
          s2 = (if str_in ''Buy'' (RSI_Signal sg) \<or> str_in ''Buy'' (StochRSI_Signal sg)
                then s1 + 1 else s1);
          s3 = (if str_in ''Strong Sell'' (RSI_Signal sg) \<or> str_in ''Strong Sell'' (StochRSI_Signal sg)
                then s2 - 2 else s2);
          s4 = (if str_in ''Sell'' (RSI_Signal sg) \<or> str_in ''Sell'' (StochRSI_Signal sg)
                then s3 - 1 else s3)
      in s4)"

section \<open>Timeframe selector\<close>

text \<open>
  \<open>get_historical_klines\<close> talks to the network: the selector takes it as a parameter
  \<open>klines\<close>, a function of the symbol and the interval that yields \<open>None\<close> or the list of
  bars. The indicators are called with their default arguments (period 14, smoothing 3
  and 3). The body of the loop up to the classification is \<open>timeframe_signals\<close>: \<open>None\<close>
  when the iteration ends at a \<open>continue\<close>.
\<close>

definition timeframe_signals ::
  "(string \<Rightarrow> string \<Rightarrow> bar list option) \<Rightarrow> string \<Rightarrow> string \<Rightarrow> error + signals option" where
  "timeframe_signals klines crypto timeframe =
     (case klines crypto timeframe of
        None \<Rightarrow> Inr None
      | Some prices \<Rightarrow>
          if prices = [] then Inr None
          else
            let closing_prices = map bar_close prices in
            case calculate_rsi closing_prices 14 of
              Inl e \<Rightarrow> Inl e
            | Inr rsi \<Rightarrow>
                (case calculate_stochrsi closing_prices 14 3 3 of
                   Inl e \<Rightarrow> Inl e
                 | Inr stochrsi \<Rightarrow>
                     (case (rsi, stochrsi, calculate_atr prices 14) of
                        (Some r, Some (stochrsi_k, stochrsi_d), Some atr) \<Rightarrow>
                          Inr (Some (get_trade_signal r stochrsi_k stochrsi_d atr))
                      | _ \<Rightarrow> Inr None)))"

record selector =
  best_timeframe :: "string option"
  best_signal_strength :: int
  results :: "string \<rightharpoonup> signals"

definition record_signals :: "selector \<Rightarrow> string \<Rightarrow> signals \<Rightarrow> selector" where
  "record_signals st timeframe sg =
     (let st1 = st\<lparr>results := (results st)(timeframe \<mapsto> sg)\<rparr>;
          signal_strength = signal_strength_of sg
      in if signal_strength > best_signal_strength st1
         then st1\<lparr>best_signal_strength := signal_strength, best_timeframe := Some timeframe\<rparr>
         else st1)"

fun analyze_loop ::
  "(string \<Rightarrow> string \<Rightarrow> bar list option) \<Rightarrow> string \<Rightarrow> string list \<Rightarrow> selector
     \<Rightarrow> error + selector" where
  "analyze_loop klines crypto [] st = Inr st"
| "analyze_loop klines crypto (timeframe # rest) st =
     (case timeframe_signals klines crypto timeframe of
        Inl e \<Rightarrow> Inl e
      | Inr None \<Rightarrow> analyze_loop klines crypto rest st
      | Inr (Some sg) \<Rightarrow> analyze_loop klines crypto rest (record_signals st timeframe sg))"

definition timeframes :: "string list" where
  "timeframes = [''15m'', ''1h'', ''4h'', ''1d'']"

definition initial_selector :: selector where
  "initial_selector = \<lparr>best_timeframe = None, best_signal_strength = - 1, results = Map.empty\<rparr>"

definition analyze_best_timeframe ::
  "(string \<Rightarrow> string \<Rightarrow> bar list option) \<Rightarrow> string
     \<Rightarrow> error + (string option \<times> (string \<rightharpoonup> signals))" where
  "analyze_best_timeframe klines crypto =
     (case analyze_loop klines crypto timeframes initial_selector of
        Inl e \<Rightarrow> Inl e
      | Inr st \<Rightarrow> Inr (best_timeframe st, results st))"

text \<open>The signal set that a run records for a timeframe in its results, if any.\<close>

definition recorded_signals ::
  "(string \<Rightarrow> string \<Rightarrow> bar list option) \<Rightarrow> string \<Rightarrow> string \<Rightarrow> signals option" where
  "recorded_signals klines crypto timeframe =
     (case analyze_best_timeframe klines crypto of
        Inr (best, res) \<Rightarrow> res timeframe
      | Inl e \<Rightarrow> None)"

text \<open>The score of a timeframe: \<open>None\<close> when the timeframe is skipped.\<close>

definition timeframe_score ::
  "(string \<Rightarrow> string \<Rightarrow> bar list option) \<Rightarrow> string \<Rightarrow> string \<Rightarrow> int option" where
  "timeframe_score klines crypto timeframe =
     (case timeframe_signals klines crypto timeframe of
        Inr (Some sg) \<Rightarrow> Some (signal_strength_of sg)
      | _ \<Rightarrow> None)"

section \<open>Ranges of float values\<close>

text \<open>A finite value that is at least \<open>a\<close>, at most \<open>b\<close>; and NaN or a finite value between both.\<close>

definition fin_ge :: "real \<Rightarrow> fl \<Rightarrow> bool" where
  "fin_ge a v = (case v of Fin r \<Rightarrow> a \<le> r | _ \<Rightarrow> False)"

definition fin_le :: "real \<Rightarrow> fl \<Rightarrow> bool" where
  "fin_le b v = (case v of Fin r \<Rightarrow> r \<le> b | _ \<Rightarrow> False)"

definition nan_or_between :: "real \<Rightarrow> real \<Rightarrow> fl \<Rightarrow> bool" where
  "nan_or_between a b v = (v = NaN \<or> (fin_ge a v \<and> fin_le b v))"

text \<open>A value with exactly \<open>nd\<close> decimals that is nearest to \<open>m\<close>.\<close>

definition rounded_to :: "nat \<Rightarrow> real \<Rightarrow> real \<Rightarrow> bool" where
  "rounded_to nd m r =
     (r = of_int (rint (m * 10 ^ nd)) / 10 ^ nd \<and> \<bar>r - m\<bar> \<le> 1 / (2 * 10 ^ nd))"

text \<open>The RSI formula at one position: \<open>100 - 100 / (1 + g / l)\<close> on floats.\<close>

definition rsi_value :: "fl \<Rightarrow> fl \<Rightarrow> fl" where
  "rsi_value g l = fsub (Fin 100) (fdiv (Fin 100) (fadd (Fin 1) (fdiv g l)))"

section \<open>Outcome of the selection loop\<close>

text \<open>
  What the loop leaves behind: either the best timeframe and score it started with, no
  score of the list being greater; or a timeframe of the list whose score is greater than
  every score before it and at least every score after it.
\<close>

definition kept :: "(string \<Rightarrow> int option) \<Rightarrow> string list \<Rightarrow> selector \<Rightarrow> selector \<Rightarrow> bool" where
  "kept sc tfs st st' \<longleftrightarrow>
     best_timeframe st' = best_timeframe st
     \<and> best_signal_strength st' = best_signal_strength st
     \<and> (\<forall>t\<in>set tfs. \<forall>s. sc t = Some s \<longrightarrow> s \<le> best_signal_strength st)"

definition replaced :: "(string \<Rightarrow> int option) \<Rightarrow> string list \<Rightarrow> selector \<Rightarrow> selector \<Rightarrow> bool" where
  "replaced sc tfs st st' \<longleftrightarrow>
     (\<exists>pre tf post. tfs = pre @ tf # post
        \<and> best_timeframe st' = Some tf
        \<and> sc tf = Some (best_signal_strength st')
        \<and> best_signal_strength st < best_signal_strength st'
        \<and> (\<forall>t\<in>set pre. \<forall>s. sc t = Some s \<longrightarrow> s < best_signal_strength st')
        \<and> (\<forall>t\<in>set post. \<forall>s. sc t = Some s \<longrightarrow> s \<le> best_signal_strength st'))"

section \<open>Example inputs\<close>

text \<open>Fourteen bars of a flat market, and a fetch step that returns them for every timeframe.\<close>

definition flat_bars :: "bar list" where
  "flat_bars = replicate 14 \<lparr>bar_open = 5, bar_high = 5, bar_low = 5, bar_close = 5\<rparr>"

definition flat_klines :: "string \<Rightarrow> string \<Rightarrow> bar list option" where
  "flat_klines crypto timeframe = Some flat_bars"

text \<open>Fourteen bars whose first bar has its high below its low.\<close>

definition crossed_bars :: "bar list" where
  "crossed_bars =
     \<lparr>bar_open = 5, bar_high = 0, bar_low = 1000, bar_close = 5\<rparr>
       # replicate 13 \<lparr>bar_open = 5, bar_high = 5, bar_low = 5, bar_close = 5\<rparr>"

text \<open>Closes that only rise, closes that rise and fall, and bars around the latter.\<close>

definition rising_closes :: "real list" where
  "rising_closes = [1, 2, 3, 4, 5, 6, 7, 8, 9, 10, 11, 12, 13, 14]"

definition mixed_closes :: "real list" where
  "mixed_closes = [1, 2, 3, 2, 5, 6, 4, 8, 9, 10, 11, 9, 13, 14, 12, 16]"

definition mixed_bars :: "bar list" where
  "mixed_bars =
     map (\<lambda>c. \<lparr>bar_open = c, bar_high = c + 1, bar_low = c - 1 / 7, bar_close = c\<rparr>) mixed_closes"

text \<open>Thirty-two closes that swing, enough history for both smoothed StochRSI lines.\<close>

definition swing_closes :: "real list" where
  "swing_closes =
     [0, 8, 9, 3, 7, 4, 11, 11, 4, 7, 3, 9, 8, 0, 2, 14,
      2, 0, 8, 9, 3, 7, 4, 11, 11, 4, 7, 3, 9, 8, 0, 2]"

text \<open>The RSI series of the prefixes of \<open>swing_closes\<close>.\<close>

definition swing_rsi :: "fl list" where
  "swing_rsi = [NaN, NaN, NaN, NaN, NaN, NaN, NaN, NaN, NaN, NaN, NaN, NaN, NaN,
      Fin 50, Fin (155 / 3), Fin (875 / 16), Fin (136 / 3), Fin (3400 / 71),
      Fin (152 / 3), Fin (3900 / 73), Fin (400 / 9), Fin (900 / 19), Fin 50,
      Fin (1000 / 19), Fin (500 / 9), Fin (3400 / 73), Fin (148 / 3),
      Fin (3700 / 71), Fin (164 / 3), Fin (725 / 16), Fin (145 / 3),
      Fin (155 / 3)]"

text \<open>
  Fourteen bars of a falling market, three bars (too few for any indicator), and a fetch
  step that has no data for 15m, a flat market for 1h and the falling market for 4h and 1d.
\<close>

definition falling_bars :: "bar list" where
  "falling_bars =
     map (\<lambda>c. \<lparr>bar_open = c, bar_high = c, bar_low = c, bar_close = c\<rparr>)
       [20, 19, 18, 17, 16, 15, 14, 13, 12, 11, 10, 9, 8, 7]"

definition short_bars :: "bar list" where
  "short_bars = replicate 3 \<lparr>bar_open = 5, bar_high = 5, bar_low = 5, bar_close = 5\<rparr>"

definition short_klines :: "string \<Rightarrow> string \<Rightarrow> bar list option" where
  "short_klines crypto timeframe = Some short_bars"

definition demo_klines :: "string \<Rightarrow> string \<Rightarrow> bar list option" where
  "demo_klines crypto timeframe =
     (if timeframe = ''15m'' then None
      else if timeframe = ''1h'' then Some flat_bars
      else Some falling_bars)"

section \<open>Facts about float values and series\<close>

lemma flt_NaN_right [simp]: "flt v NaN = False"
  by (cases v) simp_all

lemma fadd_NaN_right [simp]: "fadd v NaN = NaN"
  by (cases v) simp_all

lemma fsub_NaN_right [simp]: "fsub v NaN = NaN"
  by (simp add: fsub_def)

lemma fsub_NaN_left [simp]: "fsub NaN v = NaN"
  by (simp add: fsub_def)

lemma fdiv_NaN_right [simp]: "fdiv v NaN = NaN"
  by (cases v) simp_all

lemma fin_geE: "fin_ge a v \<Longrightarrow> \<exists>r. v = Fin r \<and> a \<le> r"
  by (cases v) (simp_all add: fin_ge_def)

lemma fin_leE: "fin_le b v \<Longrightarrow> \<exists>r. v = Fin r \<and> r \<le> b"
  by (cases v) (simp_all add: fin_le_def)

lemma fin_ge_Fin [simp]: "fin_ge a (Fin r) = (a \<le> r)"
  by (simp add: fin_ge_def)

lemma fin_le_Fin [simp]: "fin_le b (Fin r) = (r \<le> b)"
  by (simp add: fin_le_def)

lemma fsum_Cons: "fsum (v # vs) = fadd v (fsum vs)"
  by (simp add: fsum_def)

lemma fsum_ge: "\<forall>v\<in>set vs. fin_ge a v \<Longrightarrow> fin_ge (a * real (length vs)) (fsum vs)"
proof (induction vs)
  case Nil
  then show ?case by (simp add: fsum_def)
next
  case (Cons v vs)
  from Cons.prems obtain r where r: "v = Fin r" "a \<le> r"
    by (auto dest: fin_geE)
  from Cons obtain s where s: "fsum vs = Fin s" "a * real (length vs) \<le> s"
    by (auto dest: fin_geE)
  show ?case using r s by (simp add: fsum_Cons algebra_simps)
qed

lemma fsum_le: "\<forall>v\<in>set vs. fin_le b v \<Longrightarrow> fin_le (b * real (length vs)) (fsum vs)"
proof (induction vs)
  case Nil
  then show ?case by (simp add: fsum_def)
next
  case (Cons v vs)
  from Cons.prems obtain r where r: "v = Fin r" "r \<le> b"
    by (auto dest: fin_leE)
  from Cons obtain s where s: "fsum vs = Fin s" "s \<le> b * real (length vs)"
    by (auto dest: fin_leE)
  show ?case using r s by (simp add: fsum_Cons algebra_simps)
qed

lemma fmean_ge:
  assumes "vs \<noteq> []" and "\<forall>v\<in>set vs. fin_ge a v"
  shows "fin_ge a (fmean vs)"
proof -
  from fsum_ge [OF assms(2)] obtain s where s: "fsum vs = Fin s" "a * real (length vs) \<le> s"
    by (auto dest: fin_geE)
  have n: "0 < real (length vs)" using assms(1) by simp
  then have "a \<le> s / real (length vs)"
    using s(2) by (simp add: pos_le_divide_eq)
  then show ?thesis using s(1) n by (simp add: fmean_def)
qed

lemma fmean_le:
  assumes "vs \<noteq> []" and "\<forall>v\<in>set vs. fin_le b v"
  shows "fin_le b (fmean vs)"
proof -
  from fsum_le [OF assms(2)] obtain s where s: "fsum vs = Fin s" "s \<le> b * real (length vs)"
    by (auto dest: fin_leE)
  have n: "0 < real (length vs)" using assms(1) by simp
  then have "s / real (length vs) \<le> b"
    using s(2) by (simp add: pos_divide_le_eq)
  then show ?thesis using s(1) n by (simp add: fmean_def)
qed

lemma set_window: "set (window w xs i) \<subseteq> set xs"
  unfolding window_def by (meson set_drop_subset set_take_subset subset_trans)

lemma set_not_nan: "set (not_nan vs) = {v \<in> set vs. v \<noteq> NaN}"
  by (auto simp: not_nan_def)

lemma length_rolling [simp]: "length (rolling agg w mp xs) = length xs"
  by (simp add: rolling_def)

lemma nth_rolling:
  "i < length xs \<Longrightarrow>
   rolling agg w mp xs ! i =
     (if mp \<le> length (not_nan (window w xs i)) \<and> not_nan (window w xs i) \<noteq> []
      then agg (not_nan (window w xs i)) else NaN)"
  by (simp add: rolling_def Let_def)

lemma length_window: "i < length xs \<Longrightarrow> length (window w xs i) = min w (Suc i)"
  by (auto simp: window_def)

lemma last_window: "i < length xs \<Longrightarrow> 0 < w \<Longrightarrow> last (window w xs i) = xs ! i"
  unfolding window_def
  by (simp add: last_drop last_conv_nth take_Suc_conv_app_nth)

lemma not_nan_id: "\<forall>v\<in>set vs. v \<noteq> NaN \<Longrightarrow> not_nan vs = vs"
  by (simp add: not_nan_def)

lemma rolling_mean_range:
  assumes "\<forall>v\<in>set xs. nan_or_between a b v"
  shows "\<forall>v\<in>set (rolling fmean w mp xs). nan_or_between a b v"
proof
  fix v assume "v \<in> set (rolling fmean w mp xs)"
  then obtain i where i: "i < length xs" "v = rolling fmean w mp xs ! i"
    by (auto simp: in_set_conv_nth)
  let ?vs = "not_nan (window w xs i)"
  have in_range: "\<forall>u\<in>set ?vs. fin_ge a u \<and> fin_le b u"
    using assms set_window [of w xs i] by (auto simp: set_not_nan nan_or_between_def)
  show "nan_or_between a b v"
  proof (cases "mp \<le> length ?vs \<and> ?vs \<noteq> []")
    case True
    then have "v = fmean ?vs" using i by (simp add: nth_rolling)
    moreover have "fin_ge a (fmean ?vs)" using True in_range by (intro fmean_ge) auto
    moreover have "fin_le b (fmean ?vs)" using True in_range by (intro fmean_le) auto
    ultimately show ?thesis by (simp add: nan_or_between_def)
  next
    case False
    then have "v = NaN" using i by (auto simp add: nth_rolling)
    then show ?thesis by (simp add: nan_or_between_def)
  qed
qed

lemma rolling_mean_ge:
  assumes "\<forall>v\<in>set xs. fin_ge a v" and "0 < w"
  shows "\<forall>v\<in>set (rolling fmean w 1 xs). fin_ge a v"
proof
  fix v assume "v \<in> set (rolling fmean w 1 xs)"
  then obtain i where i: "i < length xs" "v = rolling fmean w 1 xs ! i"
    by (auto simp: in_set_conv_nth)
  have sub: "\<forall>u\<in>set (window w xs i). fin_ge a u"
    using assms(1) set_window [of w xs i] by auto
  then have "\<forall>u\<in>set (window w xs i). u \<noteq> NaN"
    by (auto simp: fin_ge_def)
  then have id: "not_nan (window w xs i) = window w xs i"
    by (rule not_nan_id)
  have ne: "window w xs i \<noteq> []"
    using length_window [OF i(1), of w] assms(2) by auto
  then have "1 \<le> length (window w xs i)"
    by (cases "window w xs i") auto
  then have "v = fmean (window w xs i)"
    using i ne by (simp add: nth_rolling id)
  then show "fin_ge a v" using fmean_ge [OF ne sub] by simp
qed

lemma length_diff [simp]: "length (diff xs) = length xs"
  by (cases xs) (simp_all add: diff_def)

lemma map2_fsub_Fin:
  "map2 fsub (map Fin xs) (map Fin ys) = map (\<lambda>(b, a). Fin (b - a)) (zip xs ys)"
  by (simp add: zip_map_map fsub_def split_def)

lemma diff_Fin:
  "diff (map Fin (p # ps)) = NaN # map (\<lambda>(b, a). Fin (b - a)) (zip ps (p # ps))"
  using map2_fsub_Fin [of ps "p # ps"] by (simp add: diff_def)

lemma diff_Fin_elems:
  "v \<in> set (diff (map Fin ps)) \<Longrightarrow> v = NaN \<or> (\<exists>r. v = Fin r)"
proof (cases ps)
  case Nil
  then show "v \<in> set (diff (map Fin ps)) \<Longrightarrow> ?thesis" by (simp add: diff_def)
next
  case (Cons p t)
  then show "v \<in> set (diff (map Fin ps)) \<Longrightarrow> ?thesis"
    unfolding Cons diff_Fin by auto
qed

lemma gain_series_ge0: "\<forall>v\<in>set (gain_series ps). fin_ge 0 v"
  by (auto simp: gain_series_def fgt_def dest!: diff_Fin_elems)

lemma loss_series_ge0: "\<forall>v\<in>set (loss_series ps). fin_ge 0 v"
  by (auto simp: loss_series_def dest!: diff_Fin_elems)

lemma length_avg_gain [simp]: "length (avg_gain ps period) = length ps"
  by (simp add: avg_gain_def gain_series_def)

lemma length_avg_loss [simp]: "length (avg_loss ps period) = length ps"
  by (simp add: avg_loss_def loss_series_def)

lemma avg_gain_nonempty: "ps \<noteq> [] \<Longrightarrow> avg_gain ps period \<noteq> []"
  using length_avg_gain [of ps period] by (cases "avg_gain ps period") auto

lemma avg_loss_nonempty: "ps \<noteq> [] \<Longrightarrow> avg_loss ps period \<noteq> []"
  using length_avg_loss [of ps period] by (cases "avg_loss ps period") auto

lemma avg_gain_ge0: "0 < period \<Longrightarrow> \<forall>v\<in>set (avg_gain ps period). fin_ge 0 v"
  unfolding avg_gain_def by (rule rolling_mean_ge [OF gain_series_ge0])

lemma avg_loss_ge0: "0 < period \<Longrightarrow> \<forall>v\<in>set (avg_loss ps period). fin_ge 0 v"
  unfolding avg_loss_def by (rule rolling_mean_ge [OF loss_series_ge0])

lemma rsi_zero_loss:
  assumes "fin_ge 0 g"
  shows "rsi_value g (Fin 0) = (if g = Fin 0 then NaN else Fin 100)"
proof -
  from assms obtain x where x: "g = Fin x" "0 \<le> x" by (auto dest: fin_geE)
  show ?thesis using x by (auto simp: rsi_value_def fsub_def)
qed

lemma rsi_pos_loss:
  assumes "0 \<le> x" and "0 < y"
  shows "rsi_value (Fin x) (Fin y) = Fin (100 - 100 / (1 + x / y))"
proof -
  have "0 \<le> x / y" using assms by simp
  then have "1 + x / y \<noteq> 0" by linarith
  then show ?thesis using assms by (simp add: rsi_value_def fsub_def)
qed

lemma rsi_value_range:
  assumes "fin_ge 0 g" and "fin_ge 0 l"
  shows "nan_or_between 0 100 (rsi_value g l)"
proof -
  from assms obtain x y where xy: "g = Fin x" "0 \<le> x" "l = Fin y" "0 \<le> y"
    by (auto dest!: fin_geE)
  show ?thesis
  proof (cases "y = 0")
    case True
    then show ?thesis using rsi_zero_loss [OF assms(1)] xy
      by (auto simp: nan_or_between_def)
  next
    case False
    then have y: "0 < y" using xy by simp
    have q: "0 \<le> x / y" using xy y by simp
    then have pos: "0 < 1 + x / y" by linarith
    have "100 / (1 + x / y) \<le> 100"
      using q pos by (simp add: pos_divide_le_eq)
    moreover have "0 \<le> 100 / (1 + x / y)" using pos by simp
    ultimately show ?thesis
      using rsi_pos_loss [OF xy(2) y] xy by (simp add: nan_or_between_def)
  qed
qed

lemma last_map2:
  assumes "length xs = length ys" and "xs \<noteq> []"
  shows "last (map2 f xs ys) = f (last xs) (last ys)"
proof -
  have ys: "ys \<noteq> []" using assms by auto
  have z: "zip xs ys \<noteq> []" using assms ys by (cases xs; cases ys) auto
  have "last (zip xs ys) = (last xs, last ys)"
    using assms ys by (simp add: last_zip)
  then show ?thesis using z by (simp add: last_map)
qed

lemma calculate_rsi_defined:
  assumes "0 < period" and "period \<le> length ps"
  shows "calculate_rsi ps period
           = Inr (Some (rsi_value (last (avg_gain ps period)) (last (avg_loss ps period))))"
proof -
  let ?g = "avg_gain ps period" and ?l = "avg_loss ps period"
  have ne: "ps \<noteq> []" using assms by auto
  have len: "length ?g = length ?l" by simp
  have g: "?g \<noteq> []" using ne by (rule avg_gain_nonempty)
  have z: "map2 fdiv ?g ?l \<noteq> []"
    using g len by (cases ?g; cases ?l) auto
  have "last (map (\<lambda>r. fsub (Fin 100) (fdiv (Fin 100) (fadd (Fin 1) r))) (map2 fdiv ?g ?l))
          = rsi_value (last ?g) (last ?l)"
    using z last_map2 [OF len g, of fdiv] by (simp add: last_map rsi_value_def)
  moreover have "\<not> length ps < period" "\<not> period < 1" using assms by auto
  ultimately show ?thesis
    using z unfolding calculate_rsi_def Let_def by simp
qed

lemma calculate_rsi_cases:
  "calculate_rsi ps period =
     (if length ps < period then Inr None
      else if period = 0 then Inl ValueError
      else Inr (Some (rsi_value (last (avg_gain ps period)) (last (avg_loss ps period)))))"
  using calculate_rsi_defined [of period ps]
  by (auto simp: calculate_rsi_def)

lemma calculate_rsi_range:
  assumes "calculate_rsi ps period = Inr (Some v)"
  shows "nan_or_between 0 100 v"
proof -
  from assms have p: "0 < period" "period \<le> length ps"
    by (auto simp: calculate_rsi_cases split: if_splits)
  then have "ps \<noteq> []" by auto
  then have ne: "avg_gain ps period \<noteq> []" "avg_loss ps period \<noteq> []"
    by (simp_all add: avg_gain_nonempty avg_loss_nonempty)
  have "fin_ge 0 (last (avg_gain ps period))" "fin_ge 0 (last (avg_loss ps period))"
    using avg_gain_ge0 [OF p(1), of ps] avg_loss_ge0 [OF p(1), of ps] ne last_in_set
    by blast+
  then have "nan_or_between 0 100 (rsi_value (last (avg_gain ps period)) (last (avg_loss ps period)))"
    by (rule rsi_value_range)
  then show ?thesis using assms p by (simp add: calculate_rsi_cases)
qed

lemma collect_rsi_length: "collect_rsi rs = Inr vs \<Longrightarrow> length vs = length rs"
  by (induction rs arbitrary: vs rule: collect_rsi.induct) (auto split: sum.splits)

lemma collect_rsi_elems:
  "collect_rsi rs = Inr vs \<Longrightarrow> v \<in> set vs \<Longrightarrow> v = NaN \<or> Inr (Some v) \<in> set rs"
  by (induction rs arbitrary: vs rule: collect_rsi.induct)
     (auto split: sum.splits option.splits)

lemma rsi_prefix_series_range:
  assumes "rsi_prefix_series ps period = Inr rsi"
  shows "\<forall>v\<in>set rsi. nan_or_between 0 100 v"
proof
  fix v assume v: "v \<in> set rsi"
  from collect_rsi_elems [OF assms [unfolded rsi_prefix_series_def] v]
  consider "v = NaN"
    | "Inr (Some v) \<in> set (map (\<lambda>i. calculate_rsi (take (i + 1) ps) period) [0..<length ps])"
    by blast
  then show "nan_or_between 0 100 v"
  proof cases
    case 1
    then show ?thesis by (simp add: nan_or_between_def)
  next
    case 2
    then obtain i where "calculate_rsi (take (i + 1) ps) period = Inr (Some v)"
      by (auto simp: image_iff)
    then show ?thesis by (rule calculate_rsi_range)
  qed
qed

lemma fmin_Fin [simp]: "fmin (Fin a) (Fin b) = Fin (min a b)"
  by (simp add: fmin_def min_def)

lemma fmax_Fin [simp]: "fmax (Fin a) (Fin b) = Fin (max a b)"
  by (simp add: fmax_def max_def)

lemma fmin_list_bounds:
  assumes "vs \<noteq> []" and "\<forall>v\<in>set vs. fin_ge a v \<and> fin_le b v"
  shows "\<exists>m. fmin_list vs = Fin m \<and> a \<le> m \<and> m \<le> b \<and> (\<forall>x. Fin x \<in> set vs \<longrightarrow> m \<le> x)"
  using assms
proof (induction vs rule: fmin_list.induct)
  case 1
  then show ?case by simp
next
  case (2 v)
  then show ?case by (auto dest!: fin_geE fin_leE)
next
  case (3 v u vs)
  then obtain m where m: "fmin_list (u # vs) = Fin m" "a \<le> m" "m \<le> b"
      "\<forall>x. Fin x \<in> set (u # vs) \<longrightarrow> m \<le> x"
    by auto
  from "3.prems" obtain r where r: "v = Fin r" "a \<le> r" "r \<le> b"
    by (auto dest!: fin_geE fin_leE)
  show ?case using m r by (auto simp: min_def)
qed

lemma fmax_list_bounds:
  assumes "vs \<noteq> []" and "\<forall>v\<in>set vs. fin_ge a v \<and> fin_le b v"
  shows "\<exists>m. fmax_list vs = Fin m \<and> a \<le> m \<and> m \<le> b \<and> (\<forall>x. Fin x \<in> set vs \<longrightarrow> x \<le> m)"
  using assms
proof (induction vs rule: fmax_list.induct)
  case 1
  then show ?case by simp
next
  case (2 v)
  then show ?case by (auto dest!: fin_geE fin_leE)
next
  case (3 v u vs)
  then obtain m where m: "fmax_list (u # vs) = Fin m" "a \<le> m" "m \<le> b"
      "\<forall>x. Fin x \<in> set (u # vs) \<longrightarrow> x \<le> m"
    by auto
  from "3.prems" obtain r where r: "v = Fin r" "a \<le> r" "r \<le> b"
    by (auto dest!: fin_geE fin_leE)
  show ?case using m r by (auto simp: max_def)
qed

lemma not_nan_full:
  assumes "length vs \<le> length (not_nan vs)"
  shows "not_nan vs = vs"
proof -
  have "length (not_nan vs) = length vs"
    using assms length_filter_le [of "\<lambda>v. v \<noteq> NaN" vs] by (simp add: not_nan_def)
  then show ?thesis
    unfolding not_nan_def by (metis filter_True length_filter_less not_less_iff_gr_or_eq)
qed

lemma stoch_quotient:
  assumes "m \<le> x" and "x \<le> M"
  shows "nan_or_between 0 1 (fdiv (fsub (Fin x) (Fin m)) (fsub (Fin M) (Fin m)))"
proof (cases "M = m")
  case True
  then have "x = m" using assms by simp
  then show ?thesis using True by (simp add: fsub_def nan_or_between_def)
next
  case False
  then have pos: "0 < M - m" using assms by simp
  have "(x - m) / (M - m) \<le> 1" using assms pos by (simp add: pos_divide_le_eq)
  moreover have "0 \<le> (x - m) / (M - m)" using assms pos by simp
  ultimately show ?thesis using False by (simp add: fsub_def nan_or_between_def)
qed

lemma stochrsi_series_nth:
  assumes "i < length rsi"
  shows "stochrsi_series rsi period ! i =
           fdiv (fsub (rsi ! i) (rolling fmin_list period period rsi ! i))
                (fsub (rolling fmax_list period period rsi ! i)
                      (rolling fmin_list period period rsi ! i))"
  using assms by (simp add: stochrsi_series_def Let_def)

lemma length_stochrsi_series [simp]: "length (stochrsi_series rsi period) = length rsi"
  by (simp add: stochrsi_series_def Let_def)

lemma stochrsi_series_range:
  assumes "\<forall>v\<in>set rsi. nan_or_between a b v"
  shows "\<forall>v\<in>set (stochrsi_series rsi period). nan_or_between 0 1 v"
proof
  fix v assume "v \<in> set (stochrsi_series rsi period)"
  then obtain i where i: "i < length rsi" "v = stochrsi_series rsi period ! i"
    by (auto simp: in_set_conv_nth)
  let ?w = "window period rsi i"
  let ?vs = "not_nan ?w"
  show "nan_or_between 0 1 v"
  proof (cases "period \<le> length ?vs \<and> ?vs \<noteq> []")
    case False
    then have "rolling fmin_list period period rsi ! i = NaN"
      using i(1) by (auto simp: nth_rolling)
    then show ?thesis using i by (simp add: stochrsi_series_nth nan_or_between_def)
  next
    case True
    have lw: "length ?w = min period (Suc i)" using i(1) by (rule length_window)
    then have "length ?w \<le> length ?vs" using True by (auto simp: min_def)
    then have full: "?vs = ?w" by (rule not_nan_full)
    then have nonan: "\<forall>u\<in>set ?w. u \<noteq> NaN"
      using set_not_nan [of ?w] by auto
    have rng: "\<forall>u\<in>set ?w. fin_ge a u \<and> fin_le b u"
      using assms nonan set_window [of period rsi i] by (auto simp: nan_or_between_def)
    have ne: "?w \<noteq> []" using True full by simp
    then have "0 < period" using lw by (cases period) auto
    then have "last ?w = rsi ! i" using i(1) by (simp add: last_window)
    then have mem: "rsi ! i \<in> set ?w" using ne last_in_set by metis
    then obtain x where x: "rsi ! i = Fin x" using rng by (auto dest!: fin_geE)
    obtain m where m: "fmin_list ?w = Fin m" "\<forall>y. Fin y \<in> set ?w \<longrightarrow> m \<le> y"
      using fmin_list_bounds [OF ne rng] by auto
    obtain M where M: "fmax_list ?w = Fin M" "\<forall>y. Fin y \<in> set ?w \<longrightarrow> y \<le> M"
      using fmax_list_bounds [OF ne rng] by auto
    have mn: "rolling fmin_list period period rsi ! i = Fin m"
      using i(1) True m(1) by (simp add: nth_rolling full)
    have mx: "rolling fmax_list period period rsi ! i = Fin M"
      using i(1) True M(1) by (simp add: nth_rolling full)
    have "m \<le> x" "x \<le> M" using m(2) M(2) mem x by auto
    then show ?thesis
      using i x mn mx by (simp add: stochrsi_series_nth stoch_quotient)
  qed
qed

lemma rint_lower:
  assumes "of_int n \<le> x"
  shows "n \<le> rint x"
proof -
  have "n \<le> \<lfloor>x\<rfloor>" using assms by (simp add: le_floor_iff)
  then show ?thesis by (auto simp: rint_def Let_def)
qed

lemma rint_upper:
  assumes "x \<le> of_int n"
  shows "rint x \<le> n"
proof -
  have f: "\<lfloor>x\<rfloor> \<le> n" using assms by (simp add: floor_le_iff) 
  show ?thesis
  proof (cases "x = of_int \<lfloor>x\<rfloor>")
    case True
    then have "x - of_int \<lfloor>x\<rfloor> = 0" by simp
    then show ?thesis using f by (simp add: rint_def Let_def)
  next
    case False
    then have "of_int \<lfloor>x\<rfloor> < x" using of_int_floor_le [of x] by linarith
    then have "of_int \<lfloor>x\<rfloor> < (of_int n :: real)" using assms by linarith
    then have "\<lfloor>x\<rfloor> < n" by simp
    then show ?thesis by (auto simp: rint_def Let_def)
  qed
qed

lemma rint_near: "\<bar>of_int (rint x) - x\<bar> \<le> 1 / 2"
proof -
  have "of_int \<lfloor>x\<rfloor> \<le> x" "x < of_int \<lfloor>x\<rfloor> + 1" by linarith+
  then show ?thesis by (auto simp: rint_def Let_def)
qed

lemma round_fl_rounded:
  "rounded_to nd m (of_int (rint (m * 10 ^ nd)) / 10 ^ nd)"
proof -
  define k :: real where "k = of_int (rint (m * 10 ^ nd))"
  define p :: real where "p = 10 ^ nd"
  have p: "0 < p" by (simp add: p_def)
  have "\<bar>k - m * p\<bar> \<le> 1 / 2" unfolding k_def p_def by (rule rint_near)
  then have "\<bar>k - m * p\<bar> / p \<le> (1 / 2) / p"
    using p by (intro divide_right_mono) simp_all
  moreover have "\<bar>k - m * p\<bar> / p = \<bar>(k - m * p) / p\<bar>"
    using p by simp
  moreover have "(k - m * p) / p = k / p - m"
    using p by (simp add: field_simps)
  ultimately have "\<bar>k / p - m\<bar> \<le> 1 / (2 * p)" by simp
  then show ?thesis by (simp add: rounded_to_def k_def p_def)
qed

lemma round_real_range:
  assumes "of_int lo \<le> m" and "m \<le> of_int hi"
  shows "of_int lo \<le> (of_int (rint (m * 10 ^ nd)) / 10 ^ nd :: real)"
    and "(of_int (rint (m * 10 ^ nd)) / 10 ^ nd :: real) \<le> of_int hi"
proof -
  have p: "(0::real) < 10 ^ nd" by simp
  have "of_int (lo * 10 ^ nd) \<le> m * 10 ^ nd" using assms(1) p by simp
  then have "lo * 10 ^ nd \<le> rint (m * 10 ^ nd)" by (rule rint_lower)
  then have "(of_int (lo * 10 ^ nd) :: real) \<le> of_int (rint (m * 10 ^ nd))"
    by (simp only: of_int_le_iff)
  then show "of_int lo \<le> (of_int (rint (m * 10 ^ nd)) / 10 ^ nd :: real)"
    using p by (simp add: pos_le_divide_eq)
  have "m * 10 ^ nd \<le> of_int (hi * 10 ^ nd)" using assms(2) p by simp
  then have "rint (m * 10 ^ nd) \<le> hi * 10 ^ nd" by (rule rint_upper)
  then have "(of_int (rint (m * 10 ^ nd)) :: real) \<le> of_int (hi * 10 ^ nd)"
    by (simp only: of_int_le_iff)
  then show "(of_int (rint (m * 10 ^ nd)) / 10 ^ nd :: real) \<le> of_int hi"
    using p by (simp add: pos_divide_le_eq)
qed

lemma round_fl_range:
  assumes "nan_or_between (of_int lo) (of_int hi) v" and "round_fl v nd \<noteq> NaN"
  shows "\<exists>m r. v = Fin m \<and> round_fl v nd = Fin r \<and> of_int lo \<le> r \<and> r \<le> of_int hi
           \<and> rounded_to nd m r"
proof -
  from assms(2) have "v \<noteq> NaN" by (auto simp: round_fl_def)
  with assms(1) obtain m where m: "v = Fin m" "of_int lo \<le> m" "m \<le> of_int hi"
    by (auto simp: nan_or_between_def dest!: fin_geE fin_leE)
  show ?thesis
    using m round_real_range [OF m(2) m(3), of nd] round_fl_rounded [of nd m]
    by (simp add: round_fl_def)
qed

lemma stochrsi_k_series_range:
  assumes "rsi_prefix_series ps period = Inr rsi"
  shows "\<forall>v\<in>set (stochrsi_k_series rsi period smoothK). nan_or_between 0 1 v"
  unfolding stochrsi_k_series_def
  by (rule rolling_mean_range, rule stochrsi_series_range [where a = 0 and b = 100],
      rule rsi_prefix_series_range [OF assms])

lemma stochrsi_d_series_range:
  assumes "rsi_prefix_series ps period = Inr rsi"
  shows "\<forall>v\<in>set (stochrsi_d_series rsi period smoothK smoothD). nan_or_between 0 1 v"
  unfolding stochrsi_d_series_def
  by (rule rolling_mean_range, rule stochrsi_k_series_range [OF assms])

lemma length_stochrsi_k_series [simp]:
  "length (stochrsi_k_series rsi period smoothK) = length rsi"
  by (simp add: stochrsi_k_series_def)

lemma length_stochrsi_d_series [simp]:
  "length (stochrsi_d_series rsi period smoothK smoothD) = length rsi"
  by (simp add: stochrsi_d_series_def)

lemma swing_rsi_prefix: "rsi_prefix_series swing_closes 14 = Inr swing_rsi"
  unfolding swing_closes_def swing_rsi_def by code_simp

lemma swing_k_last: "last (stochrsi_k_series swing_rsi 14 3) = Fin (23 / 64)"
  unfolding swing_rsi_def by code_simp

lemma swing_d_last: "last (stochrsi_d_series swing_rsi 14 3 3) = Fin (155803 / 340800)"
  unfolding swing_rsi_def by code_simp

lemma swing_k_round: "round_fl (Fin (23 / 64)) 2 = Fin (9 / 25)"
  by code_simp

lemma swing_d_round: "round_fl (Fin (155803 / 340800)) 2 = Fin (23 / 50)"
  by code_simp

lemma swing_stochrsi:
  "calculate_stochrsi swing_closes 14 3 3 = Inr (Some (Fin (9 / 25), Fin (23 / 50)))"
proof -
  have "swing_rsi \<noteq> []" by (simp add: swing_rsi_def)
  then have "stochrsi_k_series swing_rsi 14 3 \<noteq> []"
    by (metis length_0_conv length_stochrsi_k_series)
  moreover have "\<not> length swing_closes < 14" by (simp add: swing_closes_def)
  ultimately show ?thesis
    by (simp add: calculate_stochrsi_def swing_rsi_prefix swing_k_last swing_d_last
        swing_k_round swing_d_round)
qed

lemma shift_nth:
  "i < length xs \<Longrightarrow> shift xs ! i = (if i = 0 then NaN else xs ! (i - 1))"
  by (cases xs) (auto simp: shift_def nth_Cons nth_butlast split: nat.splits)

lemma length_shift [simp]: "length (shift xs) = length xs"
  by (cases xs) (simp_all add: shift_def)

lemma length_true_range [simp]: "length (true_range bars) = length bars"
  by (simp add: true_range_def Let_def)

lemma row_max_first: "row_max [Fin a, NaN, NaN] = Fin a"
  by (simp add: row_max_def not_nan_def)

lemma row_max_three: "row_max [Fin a, Fin b, Fin c] = Fin (max a (max b c))"
  by (simp add: row_max_def not_nan_def)

lemma true_range_nth:
  assumes "i < length bars"
  shows "true_range bars ! i =
           (if i = 0 then Fin (bar_high (bars ! 0) - bar_low (bars ! 0))
            else Fin (max (bar_high (bars ! i) - bar_low (bars ! i))
                       (max \<bar>bar_high (bars ! i) - bar_close (bars ! (i - 1))\<bar>
                            \<bar>bar_low (bars ! i) - bar_close (bars ! (i - 1))\<bar>)))"
  using assms
  by (simp add: true_range_def Let_def shift_nth fsub_def row_max_first row_max_three)

lemma true_range_later_ge0:
  assumes "i < length bars" and "0 < i"
  shows "fin_ge 0 (true_range bars ! i)"
proof -
  have "0 \<le> max \<bar>bar_high (bars ! i) - bar_close (bars ! (i - 1))\<bar>
                 \<bar>bar_low (bars ! i) - bar_close (bars ! (i - 1))\<bar>"
    by simp
  then have "0 \<le> max (bar_high (bars ! i) - bar_low (bars ! i))
                 (max \<bar>bar_high (bars ! i) - bar_close (bars ! (i - 1))\<bar>
                      \<bar>bar_low (bars ! i) - bar_close (bars ! (i - 1))\<bar>)"
    by (rule max.coboundedI2)
  then show ?thesis using assms by (simp add: true_range_nth)
qed

lemma true_range_first:
  assumes "bars \<noteq> []"
  shows "true_range bars ! 0 = Fin (bar_high (hd bars) - bar_low (hd bars))"
  using assms by (cases bars) (simp_all add: true_range_nth)

lemma true_range_finite:
  assumes "v \<in> set (true_range bars)"
  shows "v \<noteq> NaN"
proof -
  from assms obtain i where "i < length bars" "v = true_range bars ! i"
    by (auto simp: in_set_conv_nth)
  then show ?thesis by (simp add: true_range_nth)
qed

lemma window_last_position:
  assumes "xs \<noteq> []" and "w \<le> length xs"
  shows "window w xs (length xs - 1) = drop (length xs - w) xs"
  using assms by (simp add: window_def)

lemma atr_series_last:
  assumes "bars \<noteq> []" and "period \<le> length bars" and "0 < period"
  shows "last (atr_series bars period)
           = fmean (drop (length bars - period) (true_range bars))"
proof -
  let ?tr = "true_range bars"
  let ?n = "length bars"
  have ne: "?tr \<noteq> []" using assms(1) length_true_range [of bars] by (metis length_0_conv)
  have w: "window period ?tr (?n - 1) = drop (?n - period) ?tr"
    using window_last_position [OF ne] assms(2) by simp
  have "\<forall>v\<in>set (drop (?n - period) ?tr). v \<noteq> NaN"
    using true_range_finite by (meson in_set_dropD)
  then have id: "not_nan (drop (?n - period) ?tr) = drop (?n - period) ?tr"
    by (rule not_nan_id)
  have len: "length (drop (?n - period) ?tr) = period" using assms(2) by simp
  have "atr_series bars period \<noteq> []"
    using assms(1) by (simp add: atr_series_def rolling_def)
  then have "last (atr_series bars period) = atr_series bars period ! (?n - 1)"
    by (simp add: last_conv_nth atr_series_def)
  also have "\<dots> =
      (if period \<le> length (not_nan (window period ?tr (?n - 1)))
          \<and> not_nan (window period ?tr (?n - 1)) \<noteq> []
       then fmean (not_nan (window period ?tr (?n - 1))) else NaN)"
    unfolding atr_series_def using assms(1) by (intro nth_rolling) simp
  also have "\<dots> = fmean (drop (?n - period) ?tr)"
    unfolding w id using len assms(3) by auto
  finally show ?thesis .
qed

lemma atr_series_last_zero_period:
  assumes "bars \<noteq> []"
  shows "last (atr_series bars 0) = NaN"
proof -
  have "atr_series bars 0 \<noteq> []"
    using assms by (simp add: atr_series_def rolling_def)
  then have "last (atr_series bars 0) = atr_series bars 0 ! (length bars - 1)"
    by (simp add: last_conv_nth atr_series_def)
  then show ?thesis using assms by (simp add: atr_series_def nth_rolling window_def not_nan_def)
qed

lemma atr_window_ge0:
  assumes "bars \<noteq> []" and "period \<le> length bars"
    and "period < length bars \<or> bar_low (hd bars) \<le> bar_high (hd bars)"
  shows "\<forall>v\<in>set (drop (length bars - period) (true_range bars)). fin_ge 0 v"
proof
  fix v assume "v \<in> set (drop (length bars - period) (true_range bars))"
  then obtain j where j: "j < period" "v = true_range bars ! (length bars - period + j)"
    using assms(2) by (auto simp: in_set_conv_nth)
  let ?i = "length bars - period + j"
  have i: "?i < length bars" using j(1) assms(2) by simp
  show "fin_ge 0 v"
  proof (cases "?i = 0")
    case False
    then have "0 < ?i" by arith
    from true_range_later_ge0 [OF i this] show ?thesis using j(2) by simp
  next
    case True
    then have "length bars = period" using assms(2) by simp
    then have "bar_low (hd bars) \<le> bar_high (hd bars)" using assms(3) by simp
    then show ?thesis using j(2) True true_range_first [OF assms(1)] by simp
  qed
qed

lemma nonempty_by_length: "length xs = n \<Longrightarrow> 0 < n \<Longrightarrow> xs \<noteq> []"
  by auto

lemma calculate_rsi_default_ok:
  "\<exists>r. calculate_rsi ps 14 = Inr r \<and> (r = None \<longleftrightarrow> length ps < 14)"
  by (simp add: calculate_rsi_cases)

lemma collect_rsi_ok:
  "\<forall>r\<in>set rs. \<exists>v. r = Inr v \<Longrightarrow> \<exists>vs. collect_rsi rs = Inr vs"
  by (induction rs rule: collect_rsi.induct) auto

lemma rsi_prefix_series_ok:
  assumes "0 < period"
  shows "\<exists>vs. rsi_prefix_series ps period = Inr vs \<and> length vs = length ps"
proof -
  have "\<forall>r\<in>set (map (\<lambda>i. calculate_rsi (take (i + 1) ps) period) [0..<length ps]). \<exists>v. r = Inr v"
    using assms by (auto simp: calculate_rsi_cases)
  from collect_rsi_ok [OF this] obtain vs where
    vs: "collect_rsi (map (\<lambda>i. calculate_rsi (take (i + 1) ps) period) [0..<length ps]) = Inr vs"
    by blast
  from collect_rsi_length [OF vs] vs show ?thesis
    by (simp add: rsi_prefix_series_def)
qed

lemma calculate_stochrsi_default_ok:
  "\<exists>r. calculate_stochrsi ps 14 3 3 = Inr r \<and> (r = None \<longleftrightarrow> length ps < 14)"
proof (cases "length ps < 14")
  case True
  then show ?thesis by (simp add: calculate_stochrsi_def)
next
  case False
  obtain vs where vs: "rsi_prefix_series ps 14 = Inr vs" "length vs = length ps"
    using rsi_prefix_series_ok [of 14 ps] by auto
  have "length (stochrsi_k_series vs 14 3) = length ps" using vs(2) by simp
  moreover have "0 < length ps" using False by linarith
  ultimately have "stochrsi_k_series vs 14 3 \<noteq> []" by (rule nonempty_by_length)
  then show ?thesis using False vs(1) by (simp add: calculate_stochrsi_def Let_def)
qed

lemma calculate_atr_default_ok:
  "calculate_atr bars 14 = None \<longleftrightarrow> length bars < 14"
proof (cases "length bars < 14")
  case True
  then show ?thesis by (simp add: calculate_atr_def)
next
  case False
  have "length (atr_series bars 14) = length bars" by (simp add: atr_series_def)
  moreover have "0 < length bars" using False by linarith
  ultimately have "atr_series bars 14 \<noteq> []" by (rule nonempty_by_length)
  then show ?thesis using False by (simp add: calculate_atr_def Let_def)
qed

text \<open>The loop body never raises with the default arguments.\<close>

lemma timeframe_signals_ok: "\<exists>r. timeframe_signals klines crypto tf = Inr r"
proof (cases "klines crypto tf")
  case None
  then show ?thesis by (simp add: timeframe_signals_def)
next
  case (Some prices)
  obtain r where r: "calculate_rsi (map bar_close prices) 14 = Inr r"
    using calculate_rsi_default_ok [of "map bar_close prices"] by blast
  obtain s where s: "calculate_stochrsi (map bar_close prices) 14 3 3 = Inr s"
    using calculate_stochrsi_default_ok [of "map bar_close prices"] by blast
  show ?thesis
    using Some r s
    by (simp add: timeframe_signals_def Let_def split: option.splits prod.splits)
qed

lemma timeframe_signals_skip_iff:
  "timeframe_signals klines crypto tf = Inr None \<longleftrightarrow>
     (case klines crypto tf of None \<Rightarrow> True | Some prices \<Rightarrow> length prices < 14)"
proof (cases "klines crypto tf")
  case None
  then show ?thesis by (simp add: timeframe_signals_def)
next
  case (Some prices)
  obtain r where r: "calculate_rsi (map bar_close prices) 14 = Inr r"
      "r = None \<longleftrightarrow> length prices < 14"
    using calculate_rsi_default_ok [of "map bar_close prices"] by auto
  obtain s where s: "calculate_stochrsi (map bar_close prices) 14 3 3 = Inr s"
      "s = None \<longleftrightarrow> length prices < 14"
    using calculate_stochrsi_default_ok [of "map bar_close prices"] by auto
  have a: "calculate_atr prices 14 = None \<longleftrightarrow> length prices < 14"
    by (rule calculate_atr_default_ok)
  show ?thesis
    using Some r s a
    by (cases "length prices < 14")
       (auto simp: timeframe_signals_def Let_def split: option.splits prod.splits)
qed

lemma timeframe_score_None:
  "timeframe_signals klines crypto tf = Inr None \<Longrightarrow> timeframe_score klines crypto tf = None"
  by (simp add: timeframe_score_def)

lemma timeframe_score_Some:
  "timeframe_signals klines crypto tf = Inr (Some sg) \<Longrightarrow>
   timeframe_score klines crypto tf = Some (signal_strength_of sg)"
  by (simp add: timeframe_score_def)

lemma record_signals_best:
  "best_timeframe (record_signals st tf sg) =
     (if best_signal_strength st < signal_strength_of sg then Some tf else best_timeframe st)"
  "best_signal_strength (record_signals st tf sg) =
     (if best_signal_strength st < signal_strength_of sg then signal_strength_of sg
      else best_signal_strength st)"
  "results (record_signals st tf sg) = (results st)(tf \<mapsto> sg)"
  by (simp_all add: record_signals_def Let_def)

lemma analyze_loop_ok: "\<exists>st'. analyze_loop klines crypto tfs st = Inr st'"
proof (induction tfs arbitrary: st)
  case Nil
  then show ?case by simp
next
  case (Cons tf rest)
  obtain r where "timeframe_signals klines crypto tf = Inr r"
    using timeframe_signals_ok by blast
  then show ?case using Cons.IH by (cases r) simp_all
qed

lemma kept_skip:
  assumes "sc tf = None" and "kept sc rest st st'"
  shows "kept sc (tf # rest) st st'"
  using assms by (auto simp: kept_def)

lemma replaced_skip:
  assumes "sc tf = None" and "replaced sc rest st st'"
  shows "replaced sc (tf # rest) st st'"
proof -
  from assms(2) obtain pre t post where r: "rest = pre @ t # post"
      "best_timeframe st' = Some t" "sc t = Some (best_signal_strength st')"
      "best_signal_strength st < best_signal_strength st'"
      "\<forall>u\<in>set pre. \<forall>s. sc u = Some s \<longrightarrow> s < best_signal_strength st'"
      "\<forall>u\<in>set post. \<forall>s. sc u = Some s \<longrightarrow> s \<le> best_signal_strength st'"
    unfolding replaced_def by blast
  have "tf # rest = (tf # pre) @ t # post" using r(1) by simp
  moreover have "\<forall>u\<in>set (tf # pre). \<forall>s. sc u = Some s \<longrightarrow> s < best_signal_strength st'"
    using r(5) assms(1) by auto
  ultimately show ?thesis unfolding replaced_def using r(2,3,4,6) by blast
qed

lemma kept_lower:
  assumes "sc tf = Some s" and "s \<le> best_signal_strength st"
    and "best_timeframe st1 = best_timeframe st"
    and "best_signal_strength st1 = best_signal_strength st"
    and "kept sc rest st1 st'"
  shows "kept sc (tf # rest) st st'"
  using assms by (auto simp: kept_def)

lemma replaced_lower:
  assumes "sc tf = Some s" and "s \<le> best_signal_strength st"
    and "best_signal_strength st1 = best_signal_strength st"
    and "replaced sc rest st1 st'"
  shows "replaced sc (tf # rest) st st'"
proof -
  from assms(4) obtain pre t post where r: "rest = pre @ t # post"
      "best_timeframe st' = Some t" "sc t = Some (best_signal_strength st')"
      "best_signal_strength st1 < best_signal_strength st'"
      "\<forall>u\<in>set pre. \<forall>s. sc u = Some s \<longrightarrow> s < best_signal_strength st'"
      "\<forall>u\<in>set post. \<forall>s. sc u = Some s \<longrightarrow> s \<le> best_signal_strength st'"
    unfolding replaced_def by blast
  have "tf # rest = (tf # pre) @ t # post" using r(1) by simp
  moreover have "\<forall>u\<in>set (tf # pre). \<forall>s. sc u = Some s \<longrightarrow> s < best_signal_strength st'"
    using r(4,5) assms(1,2,3) by auto
  moreover have "best_signal_strength st < best_signal_strength st'"
    using r(4) assms(3) by simp
  ultimately show ?thesis unfolding replaced_def using r(2,3,6) by blast
qed

lemma replaced_higher_kept:
  assumes "sc tf = Some s" and "best_signal_strength st < s"
    and "best_timeframe st1 = Some tf" and "best_signal_strength st1 = s"
    and "kept sc rest st1 st'"
  shows "replaced sc (tf # rest) st st'"
proof -
  have "tf # rest = [] @ tf # rest" by simp
  moreover have "best_timeframe st' = Some tf" "best_signal_strength st' = s"
    using assms(3,4,5) by (auto simp: kept_def)
  moreover have "\<forall>u\<in>set rest. \<forall>x. sc u = Some x \<longrightarrow> x \<le> s"
    using assms(4,5) by (auto simp: kept_def)
  ultimately show ?thesis
    unfolding replaced_def using assms(1,2) by (metis empty_iff empty_set)
qed

lemma replaced_higher_replaced:
  assumes "sc tf = Some s" and "best_signal_strength st < s"
    and "best_signal_strength st1 = s"
    and "replaced sc rest st1 st'"
  shows "replaced sc (tf # rest) st st'"
proof -
  from assms(4) obtain pre t post where r: "rest = pre @ t # post"
      "best_timeframe st' = Some t" "sc t = Some (best_signal_strength st')"
      "best_signal_strength st1 < best_signal_strength st'"
      "\<forall>u\<in>set pre. \<forall>s. sc u = Some s \<longrightarrow> s < best_signal_strength st'"
      "\<forall>u\<in>set post. \<forall>s. sc u = Some s \<longrightarrow> s \<le> best_signal_strength st'"
    unfolding replaced_def by blast
  have "tf # rest = (tf # pre) @ t # post" using r(1) by simp
  moreover have "\<forall>u\<in>set (tf # pre). \<forall>s. sc u = Some s \<longrightarrow> s < best_signal_strength st'"
    using r(4,5) assms(1,3) by auto
  moreover have "best_signal_strength st < best_signal_strength st'"
    using r(4) assms(2,3) by simp
  ultimately show ?thesis unfolding replaced_def using r(2,3,6) by blast
qed

lemma analyze_loop_best:
  assumes "analyze_loop klines crypto tfs st = Inr st'"
  shows "kept (timeframe_score klines crypto) tfs st st'
         \<or> replaced (timeframe_score klines crypto) tfs st st'"
  using assms
proof (induction tfs arbitrary: st)
  case Nil
  then show ?case by (simp add: kept_def)
next
  case (Cons tf rest)
  let ?sc = "timeframe_score klines crypto"
  obtain r where r: "timeframe_signals klines crypto tf = Inr r"
    using timeframe_signals_ok by blast
  show ?case
  proof (cases r)
    case None
    then have sc: "?sc tf = None" using r by (simp add: timeframe_score_None)
    from Cons.prems r None have "analyze_loop klines crypto rest st = Inr st'" by simp
    from Cons.IH [OF this] show ?thesis
      using kept_skip [where sc = ?sc, OF sc] replaced_skip [where sc = ?sc, OF sc] by blast
  next
    case (Some sg)
    let ?s = "signal_strength_of sg"
    let ?st1 = "record_signals st tf sg"
    have sc: "?sc tf = Some ?s" using r Some by (simp add: timeframe_score_Some)
    from Cons.prems r Some have "analyze_loop klines crypto rest ?st1 = Inr st'" by simp
    from Cons.IH [OF this]
    have ih: "kept ?sc rest ?st1 st' \<or> replaced ?sc rest ?st1 st'" .
    show ?thesis
    proof (cases "best_signal_strength st < ?s")
      case True
      then have b: "best_timeframe ?st1 = Some tf" "best_signal_strength ?st1 = ?s"
        by (simp_all add: record_signals_best)
      from ih show ?thesis
        using replaced_higher_kept [where sc = ?sc, OF sc True b]
          replaced_higher_replaced [where sc = ?sc, OF sc True b(2)]
        by blast
    next
      case False
      then have le: "?s \<le> best_signal_strength st" by simp
      have b: "best_timeframe ?st1 = best_timeframe st"
          "best_signal_strength ?st1 = best_signal_strength st"
        using False by (simp_all add: record_signals_best)
      from ih show ?thesis
        using kept_lower [where sc = ?sc, OF sc le b] replaced_lower [where sc = ?sc, OF sc le b(2)]
        by blast
    qed
  qed
qed

lemma analyze_loop_results_skipped:
  assumes "analyze_loop klines crypto tfs st = Inr st'"
    and "timeframe_signals klines crypto tf = Inr None"
  shows "results st' tf = results st tf"
  using assms(1)
proof (induction tfs arbitrary: st)
  case Nil
  then show ?case by simp
next
  case (Cons t rest)
  obtain r where r: "timeframe_signals klines crypto t = Inr r"
    using timeframe_signals_ok by blast
  show ?case
  proof (cases r)
    case None
    with Cons r show ?thesis by simp
  next
    case (Some sg)
    then have "t \<noteq> tf" using r assms(2) by auto
    moreover from Cons.prems r Some
    have "analyze_loop klines crypto rest (record_signals st t sg) = Inr st'" by simp
    ultimately show ?thesis using Cons.IH by (simp add: record_signals_best)
  qed
qed

lemma demo_scores:
  "timeframe_score demo_klines ''BTCUSDT'' ''15m'' = None"
  "timeframe_score demo_klines ''BTCUSDT'' ''1h'' = Some (- 1)"
  "timeframe_score demo_klines ''BTCUSDT'' ''4h'' = Some 2"
  "timeframe_score demo_klines ''BTCUSDT'' ''1d'' = Some 2"
  unfolding demo_klines_def flat_bars_def falling_bars_def by code_simp+

lemma demo_best:
  "(case analyze_best_timeframe demo_klines ''BTCUSDT'' of
      Inr (best, res) \<Rightarrow> best | Inl e \<Rightarrow> None) = Some ''4h''"
  unfolding demo_klines_def flat_bars_def falling_bars_def by code_simp

lemma flat_bars_nonempty: "flat_bars \<noteq> []"
  by (simp add: flat_bars_def)

lemma flat_rsi: "calculate_rsi (map bar_close flat_bars) 14 = Inr (Some NaN)"
  unfolding flat_bars_def by code_simp

lemma flat_stochrsi:
  "calculate_stochrsi (map bar_close flat_bars) 14 3 3 = Inr (Some (NaN, NaN))"
  unfolding flat_bars_def by code_simp

lemma flat_atr: "calculate_atr flat_bars 14 = Some (Fin 0)"
  unfolding flat_bars_def by code_simp

lemma flat_signals:
  "timeframe_signals flat_klines crypto tf = Inr (Some (get_trade_signal NaN NaN NaN (Fin 0)))"
  by (simp add: timeframe_signals_def flat_klines_def flat_bars_nonempty
      flat_rsi flat_stochrsi flat_atr)

lemma nan_signals:
  "get_trade_signal NaN NaN NaN (Fin 0) =
     \<lparr>RSI_Signal = ''Neutral'', StochRSI_Signal = ''Sell'',
      ATR_Signal = ''Sideways (Low volatility)'', Estimated_Time_to_Hold = ''Exit within hours''\<rparr>"
  by (simp add: get_trade_signal_def fgt_def feq_def Let_def)

lemma timeframe_signals_Some:
  assumes "timeframe_signals klines crypto tf = Inr (Some sg)"
  shows "\<exists>prices r k d a. klines crypto tf = Some prices
           \<and> calculate_rsi (map bar_close prices) 14 = Inr (Some r)
           \<and> calculate_stochrsi (map bar_close prices) 14 3 3 = Inr (Some (k, d))
           \<and> calculate_atr prices 14 = Some a
           \<and> sg = get_trade_signal r k d a"
  using assms unfolding timeframe_signals_def Let_def
  by (auto split: option.splits if_splits sum.splits prod.splits)

lemma timeframe_signals_None:
  assumes "klines crypto tf = Some prices"
    and "calculate_rsi (map bar_close prices) 14 = Inr None
         \<or> calculate_stochrsi (map bar_close prices) 14 3 3 = Inr None
         \<or> calculate_atr prices 14 = None"
  shows "timeframe_signals klines crypto tf = Inr None"
proof -
  have short: "length prices < 14"
    using assms(2) calculate_rsi_default_ok [of "map bar_close prices"]
      calculate_stochrsi_default_ok [of "map bar_close prices"]
      calculate_atr_default_ok [of prices]
    by auto
  then show ?thesis using assms(1) by (simp add: timeframe_signals_skip_iff)
qed

lemma analyze_skipped:
  assumes "timeframe_signals klines crypto tf = Inr None"
  shows "\<exists>best res. analyze_best_timeframe klines crypto = Inr (best, res)
           \<and> res tf = None \<and> best \<noteq> Some tf"
proof -
  let ?sc = "timeframe_score klines crypto"
  obtain st' where st': "analyze_loop klines crypto timeframes initial_selector = Inr st'"
    using analyze_loop_ok by blast
  have res: "results st' tf = None"
    using analyze_loop_results_skipped [OF st' assms] by (simp add: initial_selector_def)
  have sc: "?sc tf = None" using assms by (rule timeframe_score_None)
  have "best_timeframe st' \<noteq> Some tf"
  proof
    assume b: "best_timeframe st' = Some tf"
    from analyze_loop_best [OF st'] show False
    proof
      assume "kept ?sc timeframes initial_selector st'"
      then show False using b by (simp add: kept_def initial_selector_def)
    next
      assume "replaced ?sc timeframes initial_selector st'"
      then show False using b sc by (auto simp: replaced_def)
    qed
  qed
  then show ?thesis using st' res by (simp add: analyze_best_timeframe_def)
qed

section \<open>Score of a signal set\<close>

text \<open>
  C1 (as amended). The score is additive over the four tests, but each test is one \<open>or\<close>
  over both labels and adds its weight once: for the RSI label "Oversold - Strong Buy" and
  the StochRSI label "Buy" the "Strong Buy" test adds 2 and the "Buy" test adds 1, so the
  score is 3, whatever the other two labels are.
\<close>

theorem score_strong_buy_with_buy:
  "signal_strength_of \<lparr>RSI_Signal = ''Oversold - Strong Buy'', StochRSI_Signal = ''Buy'',
      ATR_Signal = a, Estimated_Time_to_Hold = h\<rparr> = 3"
  by (simp add: signal_strength_of_def)

text \<open>The concrete signal set of C1 does not score 4.\<close>

theorem score_strong_buy_with_buy_is_not_4:
  "signal_strength_of \<lparr>RSI_Signal = ''Oversold - Strong Buy'', StochRSI_Signal = ''Buy'',
      ATR_Signal = ''Stable Market'', Estimated_Time_to_Hold = ''Hold for 1-3 days''\<rparr> \<noteq> 4"
  by (simp add: signal_strength_of_def)

section \<open>Classifier boundaries\<close>


section \<open>Inputs shorter than the period\<close>

text \<open>
  C4. For closes shorter than the period \<open>calculate_rsi\<close> returns \<open>None\<close> and
  \<open>calculate_stochrsi\<close> returns \<open>(None, None)\<close>; for bars shorter than the period
  \<open>calculate_atr\<close> returns \<open>None\<close>. None of them raises: each result is a value.
\<close>

theorem short_input_is_absent:
  "(length closes < period \<longrightarrow>
      calculate_rsi closes period = Inr None \<and>
      calculate_stochrsi closes period smoothK smoothD = Inr None)
   \<and> (length bars < period \<longrightarrow> calculate_atr bars period = None)"
  by (simp add: calculate_rsi_def calculate_stochrsi_def calculate_atr_def)

theorem short_input_is_absent_witness:
  "length [1, 2, 3 :: real] < 14 \<and> calculate_rsi [1, 2, 3] 14 = Inr None
   \<and> calculate_stochrsi [1, 2, 3] 14 3 3 = Inr None
   \<and> length [\<lparr>bar_open = 1, bar_high = 2, bar_low = 1, bar_close = 2\<rparr>] < 14
   \<and> calculate_atr [\<lparr>bar_open = 1, bar_high = 2, bar_low = 1, bar_close = 2\<rparr>] 14 = None"
  using short_input_is_absent
    [of "[1, 2, 3]" 14 3 3 "[\<lparr>bar_open = 1, bar_high = 2, bar_low = 1, bar_close = 2\<rparr>]"]
  by simp

section \<open>RSI\<close>

text \<open>
  C3 (as amended). For closes of length at least the period (a period of at least 1) whose
  final average loss is exactly 0, \<open>calculate_rsi\<close> returns exactly 100 when the final
  average gain is positive; when the final average gain is 0 as well (a flat series) the
  quotient is 0 / 0 and the result is NaN.
\<close>

theorem rsi_zero_loss_result:
  assumes "0 < period" and "period \<le> length closes"
    and "last (avg_loss closes period) = Fin 0"
  shows "calculate_rsi closes period
           = Inr (Some (if last (avg_gain closes period) = Fin 0 then NaN else Fin 100))"
proof -
  have "closes \<noteq> []" using assms by auto
  then have "avg_gain closes period \<noteq> []" by (rule avg_gain_nonempty)
  then have "fin_ge 0 (last (avg_gain closes period))"
    using avg_gain_ge0 [OF assms(1), of closes] last_in_set by blast
  then show ?thesis
    using assms by (simp add: calculate_rsi_defined rsi_zero_loss)
qed

theorem rsi_zero_loss_result_witness:
  "(0::nat) < 14 \<and> 14 \<le> length rising_closes
   \<and> last (avg_loss rising_closes 14) = Fin 0
   \<and> last (avg_gain rising_closes 14) = Fin (13 / 14)
   \<and> calculate_rsi rising_closes 14 = Inr (Some (Fin 100))"
proof -
  have len: "14 \<le> length rising_closes" by (simp add: rising_closes_def)
  have loss: "last (avg_loss rising_closes 14) = Fin 0"
    unfolding rising_closes_def by code_simp
  have gain: "last (avg_gain rising_closes 14) = Fin (13 / 14)"
    unfolding rising_closes_def by code_simp
  show ?thesis
    using rsi_zero_loss_result [of 14 rising_closes, OF _ len loss] len loss gain by simp
qed

text \<open>
  A flat series of 14 closes has a final average loss of exactly 0, and \<open>calculate_rsi\<close>
  returns NaN for it, not 100.
\<close>

theorem rsi_flat_series_is_nan:
  "14 \<le> length (map bar_close flat_bars)
   \<and> last (avg_loss (map bar_close flat_bars) 14) = Fin 0
   \<and> calculate_rsi (map bar_close flat_bars) 14 = Inr (Some NaN)
   \<and> calculate_rsi (map bar_close flat_bars) 14 \<noteq> Inr (Some (Fin 100))"
proof -
  have "last (avg_loss (map bar_close flat_bars) 14) = Fin 0"
    unfolding flat_bars_def by code_simp
  moreover have "calculate_rsi (map bar_close flat_bars) 14 = Inr (Some NaN)"
    unfolding flat_bars_def by code_simp
  ultimately show ?thesis by (simp add: flat_bars_def)
qed



section \<open>Stochastic RSI\<close>



section \<open>Average true range\<close>




section \<open>Selection of the best timeframe\<close>

text \<open>
  C5. The selector starts with no best timeframe and the best score -1, and a recorded
  timeframe replaces the best one only when its score is strictly greater. Hence
  \<open>analyze_best_timeframe\<close> returns no best timeframe exactly when no timeframe of the
  fixed list scores above -1; otherwise it returns a timeframe whose score is at least 0,
  strictly greater than the score of every timeframe before it in the list and at least
  the score of every timeframe after it: the first one with the maximal score.
\<close>

theorem best_timeframe_is_first_maximal:
  "best_timeframe initial_selector = None \<and> best_signal_strength initial_selector = - 1
   \<and> best_timeframe (record_signals st tf0 sg) =
       (if best_signal_strength st < signal_strength_of sg then Some tf0 else best_timeframe st)
   \<and> (\<exists>best res. analyze_best_timeframe klines crypto = Inr (best, res)
        \<and> (best = None \<longleftrightarrow>
             (\<forall>t\<in>set timeframes. \<forall>s. timeframe_score klines crypto t = Some s \<longrightarrow> s \<le> - 1))
        \<and> (\<forall>tf. best = Some tf \<longrightarrow>
             (\<exists>pre post s. timeframes = pre @ tf # post
                \<and> timeframe_score klines crypto tf = Some s \<and> 0 \<le> s
                \<and> (\<forall>t\<in>set pre. \<forall>s'. timeframe_score klines crypto t = Some s' \<longrightarrow> s' < s)
                \<and> (\<forall>t\<in>set post. \<forall>s'. timeframe_score klines crypto t = Some s' \<longrightarrow> s' \<le> s))))"
proof -
  let ?sc = "timeframe_score klines crypto"
  obtain st' where st': "analyze_loop klines crypto timeframes initial_selector = Inr st'"
    using analyze_loop_ok by blast
  then have res: "analyze_best_timeframe klines crypto = Inr (best_timeframe st', results st')"
    by (simp add: analyze_best_timeframe_def)
  have init: "best_timeframe initial_selector = None" "best_signal_strength initial_selector = - 1"
    by (simp_all add: initial_selector_def)
  from analyze_loop_best [OF st']
  consider (k) "kept ?sc timeframes initial_selector st'"
    | (r) "replaced ?sc timeframes initial_selector st'" by blast
  then have "(best_timeframe st' = None \<longleftrightarrow>
             (\<forall>t\<in>set timeframes. \<forall>s. ?sc t = Some s \<longrightarrow> s \<le> - 1))
        \<and> (\<forall>tf. best_timeframe st' = Some tf \<longrightarrow>
             (\<exists>pre post s. timeframes = pre @ tf # post
                \<and> ?sc tf = Some s \<and> 0 \<le> s
                \<and> (\<forall>t\<in>set pre. \<forall>s'. ?sc t = Some s' \<longrightarrow> s' < s)
                \<and> (\<forall>t\<in>set post. \<forall>s'. ?sc t = Some s' \<longrightarrow> s' \<le> s)))"
  proof cases
    case k
    then show ?thesis using init by (auto simp: kept_def)
  next
    case r
    then obtain pre tf post where d: "timeframes = pre @ tf # post"
      "best_timeframe st' = Some tf" "?sc tf = Some (best_signal_strength st')"
      "- 1 < best_signal_strength st'"
      "\<forall>t\<in>set pre. \<forall>s. ?sc t = Some s \<longrightarrow> s < best_signal_strength st'"
      "\<forall>t\<in>set post. \<forall>s. ?sc t = Some s \<longrightarrow> s \<le> best_signal_strength st'"
      unfolding replaced_def init by blast
    have "tf \<in> set timeframes" using d(1) by (metis in_set_conv_decomp)
    then have "\<not> (\<forall>t\<in>set timeframes. \<forall>s. ?sc t = Some s \<longrightarrow> s \<le> - 1)"
      using d(3,4) by force
    moreover have "best_timeframe st' \<noteq> None" using d(2) by simp
    ultimately have first: "best_timeframe st' = None \<longleftrightarrow>
        (\<forall>t\<in>set timeframes. \<forall>s. ?sc t = Some s \<longrightarrow> s \<le> - 1)"
      by blast
    have nonneg: "0 \<le> best_signal_strength st'" using d(4) by simp
    have second: "\<forall>tf'. best_timeframe st' = Some tf' \<longrightarrow>
             (\<exists>pre post s. timeframes = pre @ tf' # post
                \<and> ?sc tf' = Some s \<and> 0 \<le> s
                \<and> (\<forall>t\<in>set pre. \<forall>s'. ?sc t = Some s' \<longrightarrow> s' < s)
                \<and> (\<forall>t\<in>set post. \<forall>s'. ?sc t = Some s' \<longrightarrow> s' \<le> s))"
    proof (intro allI impI)
      fix tf' assume "best_timeframe st' = Some tf'"
      then have eq: "tf' = tf" using d(2) by simp
      show "\<exists>pre post s. timeframes = pre @ tf' # post
                \<and> ?sc tf' = Some s \<and> 0 \<le> s
                \<and> (\<forall>t\<in>set pre. \<forall>s'. ?sc t = Some s' \<longrightarrow> s' < s)
                \<and> (\<forall>t\<in>set post. \<forall>s'. ?sc t = Some s' \<longrightarrow> s' \<le> s)"
        unfolding eq
        by (rule exI [of _ pre], rule exI [of _ post],
            rule exI [of _ "best_signal_strength st'"])
           (use d nonneg in simp)
    qed
    from first second show ?thesis by (rule conjI)
  qed
  then show ?thesis
    using res init by (simp add: record_signals_best)
qed

theorem best_timeframe_is_first_maximal_witness:
  "timeframe_score demo_klines ''BTCUSDT'' ''15m'' = None
   \<and> timeframe_score demo_klines ''BTCUSDT'' ''1h'' = Some (- 1)
   \<and> timeframe_score demo_klines ''BTCUSDT'' ''4h'' = Some 2
   \<and> timeframe_score demo_klines ''BTCUSDT'' ''1d'' = Some 2
   \<and> (\<exists>res. analyze_best_timeframe demo_klines ''BTCUSDT'' = Inr (Some ''4h'', res))
   \<and> (\<exists>pre post. timeframes = pre @ ''4h'' # post \<and> ''1h'' \<in> set pre \<and> ''1d'' \<in> set post)"
proof -
  from best_timeframe_is_first_maximal [of initial_selector "''15m''" "get_trade_signal NaN NaN NaN (Fin 0)" demo_klines
      "''BTCUSDT''"]
  obtain best res where b: "analyze_best_timeframe demo_klines ''BTCUSDT'' = Inr (best, res)"
    and c: "\<forall>tf. best = Some tf \<longrightarrow>
             (\<exists>pre post s. timeframes = pre @ tf # post
                \<and> timeframe_score demo_klines ''BTCUSDT'' tf = Some s \<and> 0 \<le> s
                \<and> (\<forall>t\<in>set pre. \<forall>s'. timeframe_score demo_klines ''BTCUSDT'' t = Some s' \<longrightarrow> s' < s)
                \<and> (\<forall>t\<in>set post. \<forall>s'. timeframe_score demo_klines ''BTCUSDT'' t = Some s' \<longrightarrow> s' \<le> s))"
    by blast
  have best: "best = Some ''4h''" using demo_best b by simp
  have "timeframes = [''15m'', ''1h''] @ ''4h'' # [''1d'']" by (simp add: timeframes_def)
  then have "\<exists>pre post. timeframes = pre @ ''4h'' # post \<and> ''1h'' \<in> set pre \<and> ''1d'' \<in> set post"
    by (metis list.set_intros(1) list.set_intros(2))
  then show ?thesis using b best demo_scores by simp
qed

section \<open>Skipped timeframes\<close>

text \<open>
  C2 (as amended). If any of the RSI, the StochRSI pair or the ATR of a timeframe is
  \<open>None\<close>, the timeframe is skipped: nothing is classified, no score is computed, no
  signal set is recorded for it in the results and it is not the best timeframe. Every
  signal set that is recorded is \<open>get_trade_signal\<close> of the three indicator results, none
  of which is \<open>None\<close>. (A NaN indicator is not \<open>None\<close> and is not skipped.)
\<close>

theorem skipped_when_an_indicator_is_None:
  "(klines crypto tf = Some prices
      \<and> (calculate_rsi (map bar_close prices) 14 = Inr None
         \<or> calculate_stochrsi (map bar_close prices) 14 3 3 = Inr None
         \<or> calculate_atr prices 14 = None)
     \<longrightarrow> timeframe_signals klines crypto tf = Inr None
         \<and> timeframe_score klines crypto tf = None
         \<and> (\<exists>best res. analyze_best_timeframe klines crypto = Inr (best, res)
               \<and> res tf = None \<and> best \<noteq> Some tf))
   \<and> (timeframe_signals klines crypto tf = Inr (Some sg)
     \<longrightarrow> (\<exists>prices r k d a. klines crypto tf = Some prices
           \<and> calculate_rsi (map bar_close prices) 14 = Inr (Some r)
           \<and> calculate_stochrsi (map bar_close prices) 14 3 3 = Inr (Some (k, d))
           \<and> calculate_atr prices 14 = Some a
           \<and> sg = get_trade_signal r k d a))"
proof (intro conjI impI)
  assume a: "klines crypto tf = Some prices
      \<and> (calculate_rsi (map bar_close prices) 14 = Inr None
         \<or> calculate_stochrsi (map bar_close prices) 14 3 3 = Inr None
         \<or> calculate_atr prices 14 = None)"
  then show n: "timeframe_signals klines crypto tf = Inr None"
    using timeframe_signals_None by blast
  then show "timeframe_score klines crypto tf = None" by (rule timeframe_score_None)
  from n show "\<exists>best res. analyze_best_timeframe klines crypto = Inr (best, res)
               \<and> res tf = None \<and> best \<noteq> Some tf"
    by (rule analyze_skipped)
next
  assume "timeframe_signals klines crypto tf = Inr (Some sg)"
  then show "\<exists>prices r k d a. klines crypto tf = Some prices
           \<and> calculate_rsi (map bar_close prices) 14 = Inr (Some r)
           \<and> calculate_stochrsi (map bar_close prices) 14 3 3 = Inr (Some (k, d))
           \<and> calculate_atr prices 14 = Some a
           \<and> sg = get_trade_signal r k d a"
    by (rule timeframe_signals_Some)
qed

theorem skipped_when_an_indicator_is_None_witness:
  "short_klines ''BTCUSDT'' ''1h'' = Some short_bars
   \<and> calculate_rsi (map bar_close short_bars) 14 = Inr None
   \<and> timeframe_signals short_klines ''BTCUSDT'' ''1h'' = Inr None
   \<and> timeframe_score short_klines ''BTCUSDT'' ''1h'' = None
   \<and> (\<exists>best res. analyze_best_timeframe short_klines ''BTCUSDT'' = Inr (best, res)
         \<and> res ''1h'' = None \<and> best \<noteq> Some ''1h'')
   \<and> timeframe_signals flat_klines ''BTCUSDT'' ''1h''
       = Inr (Some (get_trade_signal NaN NaN NaN (Fin 0)))
   \<and> (\<exists>prices r k d a. flat_klines ''BTCUSDT'' ''1h'' = Some prices
         \<and> calculate_rsi (map bar_close prices) 14 = Inr (Some r)
         \<and> calculate_stochrsi (map bar_close prices) 14 3 3 = Inr (Some (k, d))
         \<and> calculate_atr prices 14 = Some a
         \<and> get_trade_signal NaN NaN NaN (Fin 0) = get_trade_signal r k d a)"
proof -
  have k: "short_klines ''BTCUSDT'' ''1h'' = Some short_bars" by (simp add: short_klines_def)
  have r: "calculate_rsi (map bar_close short_bars) 14 = Inr None"
    by (simp add: calculate_rsi_def short_bars_def)
  from skipped_when_an_indicator_is_None
    [of short_klines "''BTCUSDT''" "''1h''" short_bars "get_trade_signal NaN NaN NaN (Fin 0)"]
  have 1: "timeframe_signals short_klines ''BTCUSDT'' ''1h'' = Inr None
     \<and> timeframe_score short_klines ''BTCUSDT'' ''1h'' = None
     \<and> (\<exists>best res. analyze_best_timeframe short_klines ''BTCUSDT'' = Inr (best, res)
         \<and> res ''1h'' = None \<and> best \<noteq> Some ''1h'')"
    using k r by blast
  from skipped_when_an_indicator_is_None
    [of flat_klines "''BTCUSDT''" "''1h''" flat_bars "get_trade_signal NaN NaN NaN (Fin 0)"]
  have 2: "\<exists>prices r k d a. flat_klines ''BTCUSDT'' ''1h'' = Some prices
         \<and> calculate_rsi (map bar_close prices) 14 = Inr (Some r)
         \<and> calculate_stochrsi (map bar_close prices) 14 3 3 = Inr (Some (k, d))
         \<and> calculate_atr prices 14 = Some a
         \<and> get_trade_signal NaN NaN NaN (Fin 0) = get_trade_signal r k d a"
    using flat_signals [of "''BTCUSDT''" "''1h''"] by blast
  show ?thesis using k r 1 2 flat_signals [of "''BTCUSDT''" "''1h''"] by blast
qed

text \<open>
  Fourteen flat bars: the RSI and both StochRSI lines are NaN, and yet the timeframe is
  classified, scored and recorded in the results.
\<close>

theorem nan_indicators_are_classified:
  "calculate_rsi (map bar_close flat_bars) 14 = Inr (Some NaN)
   \<and> calculate_stochrsi (map bar_close flat_bars) 14 3 3 = Inr (Some (NaN, NaN))
   \<and> calculate_atr flat_bars 14 = Some (Fin 0)
   \<and> timeframe_signals flat_klines ''BTCUSDT'' ''15m''
       = Inr (Some \<lparr>RSI_Signal = ''Neutral'', StochRSI_Signal = ''Sell'',
           ATR_Signal = ''Sideways (Low volatility)'',
           Estimated_Time_to_Hold = ''Exit within hours''\<rparr>)
   \<and> timeframe_score flat_klines ''BTCUSDT'' ''15m'' = Some (- 1)
   \<and> recorded_signals flat_klines ''BTCUSDT'' ''15m''
       = Some \<lparr>RSI_Signal = ''Neutral'', StochRSI_Signal = ''Sell'',
           ATR_Signal = ''Sideways (Low volatility)'',
           Estimated_Time_to_Hold = ''Exit within hours''\<rparr>"
proof -
  have res: "recorded_signals flat_klines ''BTCUSDT'' ''15m''
       = Some \<lparr>RSI_Signal = ''Neutral'', StochRSI_Signal = ''Sell'',
           ATR_Signal = ''Sideways (Low volatility)'',
           Estimated_Time_to_Hold = ''Exit within hours''\<rparr>"
    by (simp add: recorded_signals_def analyze_best_timeframe_def timeframes_def
        flat_signals nan_signals initial_selector_def record_signals_def
        signal_strength_of_def Let_def)
  have s: "timeframe_signals flat_klines ''BTCUSDT'' ''15m''
       = Inr (Some \<lparr>RSI_Signal = ''Neutral'', StochRSI_Signal = ''Sell'',
           ATR_Signal = ''Sideways (Low volatility)'',
           Estimated_Time_to_Hold = ''Exit within hours''\<rparr>)"
    by (simp add: flat_signals nan_signals)
  have "timeframe_score flat_klines ''BTCUSDT'' ''15m'' = Some (- 1)"
    by (simp add: timeframe_score_def s signal_strength_of_def)
  then show ?thesis using s res flat_rsi flat_stochrsi flat_atr by simp
qed

section \<open>NaN inputs of the classifier\<close>

text \<open>
  C10. \<open>get_trade_signal\<close> classifies NaN inputs through its fall-through branches: a NaN
  RSI is "Neutral" and a NaN %K is "Sell", whatever the other inputs are. NaN values do
  reach it: for fourteen flat bars the RSI and both StochRSI lines are NaN, none of them
  is \<open>None\<close>, and the loop body calls the classifier with them.
\<close>

theorem nan_reaches_the_classifier:
  "RSI_Signal (get_trade_signal NaN k d a) = ''Neutral''
   \<and> StochRSI_Signal (get_trade_signal r NaN d a) = ''Sell''
   \<and> calculate_rsi (map bar_close flat_bars) 14 = Inr (Some NaN)
   \<and> calculate_stochrsi (map bar_close flat_bars) 14 3 3 = Inr (Some (NaN, NaN))
   \<and> timeframe_signals flat_klines crypto timeframe
       = Inr (Some (get_trade_signal NaN NaN NaN (Fin 0)))"
  by (simp add: get_trade_signal_def fgt_def Let_def flat_rsi flat_stochrsi flat_signals)

end
